theory Spec2Isabelle
  imports Complex_Main "HOL-Library.Sublist"
begin

section \<open>Strings, records and the ledger\<close>

text \<open>
  A Python \<open>str\<close> is a sequence of Unicode code points, so a string is a list of code
  points here (\<open>len\<close> is \<open>length\<close>, \<open>k in s\<close> is \<open>sublist k s\<close>). The literals of the
  source are written with their code points, the source text in a comment beside them.
\<close>

type_synonym ustr = "nat list"

text \<open>
  An expense is the dict \<open>{'date', 'description', 'amount', 'category'}\<close> built in
  \<open>add_expense\<close>. Amounts are Python floats in the source; they are exact reals here.
  The two agree as long as no operation rounds, as on the whole numbers of the scenarios.
  The rounding of IEEE doubles, their infinities and NaN are outside this development, and
  what hangs on them is not stated in it: where a ratio stands against the bound of a
  trend class, the digits printed for a percentage, whether a sum of doubles is the sum
  of its parts.
\<close>

record expense =
  date :: ustr
  description :: ustr
  amount :: real
  category :: ustr

text \<open>
  A Python dict keeps its keys in insertion order and holds every key once: it is an
  association list whose keys are distinct (\<open>wf_ledger\<close> below). \<open>self.expenses\<close> maps a
  month key to a dict from category to the list of expenses.
\<close>

type_synonym cat_map = "(ustr \<times> expense list) list"
type_synonym ledger = "(ustr \<times> cat_map) list"

section \<open>The category table\<close>

definition cat_food :: ustr where \<comment> \<open>U+5403 U+996D, dining\<close>
  "cat_food = [0x5403, 0x996d]"

definition cat_fun :: ustr where \<comment> \<open>U+5A31 U+4E50, entertainment\<close>
  "cat_fun = [0x5a31, 0x4e50]"

definition cat_transport :: ustr where \<comment> \<open>U+4EA4 U+901A, transport\<close>
  "cat_transport = [0x4ea4, 0x901a]"

definition cat_shopping :: ustr where \<comment> \<open>U+8D2D U+7269, shopping\<close>
  "cat_shopping = [0x8d2d, 0x7269]"

definition cat_other :: ustr where \<comment> \<open>U+5176 U+4ED6, other: the default category\<close>
  "cat_other = [0x5176, 0x4ed6]"

text \<open>\<open>self.category_keywords\<close>, in the order of the dict literal of \<open>__init__\<close>.\<close>

definition category_keywords :: "(ustr \<times> ustr list) list" where
  "category_keywords =
   [(cat_food,
     [[0x996d], [0x9910], [0x98df], [0x9762], [0x706b, 0x9505], [0x70e7, 0x70e4],
      [0x5c0f, 0x5403], [0x83dc], [0x7c73], [0x5976, 0x8336],
      [0x996e, 0x6599], [0x6c34, 0x679c], [0x65e9, 0x9910], [0x5348, 0x9910],
      [0x665a, 0x9910], [0x591c, 0x5bb5], [0x96f6, 0x98df], [0x5916, 0x5356],
      [0x5802, 0x98df], [0x5feb, 0x9910], [0x9ea6, 0x5f53, 0x52b3],
      [0x80af, 0x5fb7, 0x57fa]]),
    (cat_fun,
     [[0x7535, 0x5f71], [0x6e38, 0x620f], [0x6b, 0x74, 0x76], [0x5531, 0x6b4c],
      [0x7535, 0x73a9], [0x7f51, 0x5427], [0x7535, 0x7ade], [0x6f14, 0x5531, 0x4f1a],
      [0x97f3, 0x4e50, 0x4f1a], [0x5267, 0x573a], [0x5c55, 0x89c8],
      [0x535a, 0x7269, 0x9986], [0x5065, 0x8eab], [0x8fd0, 0x52a8], [0x65c5, 0x6e38],
      [0x666f, 0x70b9], [0x95e8, 0x7968], [0x7535, 0x89c6, 0x4f1a, 0x5458],
      [0x89c6, 0x9891, 0x4f1a, 0x5458]]),
    (cat_transport,
     [[0x5730, 0x94c1], [0x516c, 0x4ea4], [0x51fa, 0x79df], [0x6253, 0x8f66],
      [0x5355, 0x8f66], [0x5171, 0x4eab, 0x5355, 0x8f66], [0x52a0, 0x6cb9],
      [0x505c, 0x8f66], [0x9ad8, 0x94c1], [0x706b, 0x8f66], [0x98de, 0x673a],
      [0x673a, 0x7968], [0x8f66, 0x7968]]),
    (cat_shopping,
     [[0x8863, 0x670d], [0x88e4, 0x5b50], [0x978b], [0x5305], [0x5316, 0x5986, 0x54c1],
      [0x62a4, 0x80a4, 0x54c1], [0x7535, 0x5b50, 0x4ea7, 0x54c1], [0x624b, 0x673a],
      [0x7535, 0x8111], [0x6570, 0x7801], [0x5bb6, 0x5177], [0x65e5, 0x7528, 0x54c1],
      [0x8d85, 0x5e02]]),
    (cat_other, [])]"

text \<open>\<open>self.category_keywords.keys()\<close>.\<close>

definition categories :: "ustr list" where
  "categories = map fst category_keywords"

section \<open>categorize\_description\<close>

text \<open>
  \<open>str.lower\<close>: the ASCII capitals and KELVIN SIGN (U+212A, whose lower case is \<open>k\<close>)
  are mapped; the other case pairs of Unicode are left as they are, none of them has a
  lower-case form that occurs in a declared keyword.
\<close>

definition lower_cp :: "nat \<Rightarrow> nat" where
  "lower_cp c = (if 0x41 \<le> c \<and> c \<le> 0x5a then c + 0x20 else if c = 0x212a then 0x6b else c)"

definition lower :: "ustr \<Rightarrow> ustr" where
  "lower s = map lower_cp s"

text \<open>The inner loop: is some keyword of the list, lower-cased, inside the description?\<close>

fun match_keywords :: "ustr list \<Rightarrow> ustr \<Rightarrow> bool" where
  "match_keywords [] d = False"
| "match_keywords (keyword # keywords) d =
     (if sublist (lower keyword) d then True else match_keywords keywords d)"

text \<open>The outer loop over \<open>category_keywords.items()\<close>; \<open>None\<close> when it falls through.\<close>

fun scan_categories :: "(ustr \<times> ustr list) list \<Rightarrow> ustr \<Rightarrow> ustr option" where
  "scan_categories [] d = None"
| "scan_categories ((cat, keywords) # rest) d =
     (if match_keywords keywords d then Some cat else scan_categories rest d)"

definition categorize_description :: "ustr \<Rightarrow> ustr" where
  "categorize_description desc =
     (case scan_categories category_keywords (lower desc) of
        Some cat \<Rightarrow> cat
      | None \<Rightarrow> cat_other)"

text \<open>
  The classification as the specification words it: a category matches a description
  when one of its keywords is a substring of the lower-cased description, and the first
  matching category in declaration order wins, the default otherwise.
\<close>

definition has_keyword :: "ustr \<times> ustr list \<Rightarrow> ustr \<Rightarrow> bool" where
  "has_keyword entry desc = (\<exists>k \<in> set (snd entry). sublist (lower k) (lower desc))"

definition classify_spec :: "ustr \<Rightarrow> ustr" where
  "classify_spec desc =
     (case find (\<lambda>entry. has_keyword entry desc) category_keywords of
        Some entry \<Rightarrow> fst entry
      | None \<Rightarrow> cat_other)"

section \<open>Numbers in text\<close>

text \<open>
  The ASCII digits: the digits that \<open>str\<close> writes for an integer, and the ones that the
  patterns of \<open>strptime\<close> name literally.
\<close>

definition is_digit :: "nat \<Rightarrow> bool" where
  "is_digit c \<longleftrightarrow> 0x30 \<le> c \<and> c \<le> 0x39"

definition all_digits :: "ustr \<Rightarrow> bool" where
  "all_digits s \<longleftrightarrow> list_all is_digit s"

definition nat_of_digits :: "ustr \<Rightarrow> nat" where
  "nat_of_digits s = foldl (\<lambda>acc c. 10 * acc + (c - 0x30)) 0 s"

text \<open>
  Python's \<open>\d\<close>, \<open>int\<close> and \<open>float\<close> take every character with the Unicode property
  Decimal (general category Nd), the full-width and the Arabic-Indic digits among them.
  In the Unicode Character Database these characters stand in runs of ten, the digits 0
  to 9 in ascending order; \<open>decimal_zeros\<close> lists the zero of every run, for Unicode 15
  (the database of Python 3.12).
\<close>

definition decimal_zeros :: "nat list" where
  "decimal_zeros =
     [0x30, 0x660, 0x6f0, 0x7c0, 0x966, 0x9e6, 0xa66, 0xae6, 0xb66, 0xbe6, 0xc66, 0xce6,
      0xd66, 0xde6, 0xe50, 0xed0, 0xf20, 0x1040, 0x1090, 0x17e0, 0x1810, 0x1946, 0x19d0,
      0x1a80, 0x1a90, 0x1b50, 0x1bb0, 0x1c40, 0x1c50, 0xa620, 0xa8d0, 0xa900, 0xa9d0,
      0xa9f0, 0xaa50, 0xabf0, 0xff10, 0x104a0, 0x10d30, 0x11066, 0x110f0, 0x11136,
      0x111d0, 0x112f0, 0x11450, 0x114d0, 0x11650, 0x116c0, 0x11730, 0x118e0, 0x11950,
      0x11c50, 0x11d50, 0x11da0, 0x11f50, 0x16a60, 0x16ac0, 0x16b50, 0x1d7ce, 0x1d7d8,
      0x1d7e2, 0x1d7ec, 0x1d7f6, 0x1e140, 0x1e2f0, 0x1e4f0, 0x1e950, 0x1fbf0]"

definition decimal_base :: "nat \<Rightarrow> nat option" where
  "decimal_base c = find (\<lambda>z. z \<le> c \<and> c \<le> z + 9) decimal_zeros"

definition is_decimal :: "nat \<Rightarrow> bool" where
  "is_decimal c \<longleftrightarrow> decimal_base c \<noteq> None"

definition decimal_value :: "nat \<Rightarrow> nat" where
  "decimal_value c = (case decimal_base c of Some z \<Rightarrow> c - z | None \<Rightarrow> 0)"

definition all_decimals :: "ustr \<Rightarrow> bool" where
  "all_decimals s \<longleftrightarrow> list_all is_decimal s"

definition nat_of_decimals :: "ustr \<Rightarrow> nat" where
  "nat_of_decimals s = foldl (\<lambda>acc c. 10 * acc + decimal_value c) 0 s"

text \<open>\<open>str(n)\<close> of a non-negative integer, and of any integer.\<close>

function show_nat :: "nat \<Rightarrow> ustr" where
  "show_nat n = (if n < 10 then [0x30 + n] else show_nat (n div 10) @ [0x30 + n mod 10])"
  by pat_completeness auto
termination
  by (relation "measure id") auto

declare show_nat.simps [simp del]

definition show_int :: "int \<Rightarrow> ustr" where
  "show_int i = (if i < 0 then 0x2d # show_nat (nat (- i)) else show_nat (nat i))"

text \<open>The format \<open>{m:02d}\<close> of a non-negative integer: zero-padded to two places.\<close>

definition pad2 :: "nat \<Rightarrow> ustr" where
  "pad2 m = (if m < 10 then 0x30 # show_nat m else show_nat m)"

datatype py_error = ValueError | ZeroDivisionError | FileNotFoundError

text \<open>
  \<open>int(s)\<close> of a text: blanks at both ends are skipped, a sign may come first, and the
  rest must be decimal digits, where single underscores may stand between two digits.
  The blanks are the ASCII ones (tab to carriage return, and the space) and the
  white-space characters of Unicode from U+0085 on. A text of more than 4300 digits is
  refused (the default limit of the interpreter), like every other text, with a
  \<open>ValueError\<close>.
\<close>

definition int_spaces :: "nat list" where
  "int_spaces =
     [0x09, 0x0a, 0x0b, 0x0c, 0x0d, 0x20, 0x85, 0xa0, 0x1680, 0x2000, 0x2001, 0x2002, 0x2003,
      0x2004, 0x2005, 0x2006, 0x2007, 0x2008, 0x2009, 0x200a, 0x2028, 0x2029, 0x202f, 0x205f,
      0x3000]"

definition int_space :: "nat \<Rightarrow> bool" where
  "int_space c \<longleftrightarrow> c \<in> set int_spaces"

definition strip_spaces :: "ustr \<Rightarrow> ustr" where
  "strip_spaces s = rev (dropWhile int_space (rev (dropWhile int_space s)))"

text \<open>Digits in groups: a digit first and last, and never two underscores in a row.\<close>

fun grouped :: "ustr \<Rightarrow> bool" where
  "grouped [] = False"
| "grouped [c] = is_decimal c"
| "grouped (c # d # cs) = (is_decimal c \<and> (if d = 0x5f then grouped cs else grouped (d # cs)))"

definition py_int :: "ustr \<Rightarrow> py_error + int" where
  "py_int s =
     (let t = strip_spaces s;
          negative = (case t of c # _ \<Rightarrow> c = 0x2d | [] \<Rightarrow> False);
          body = (case t of c # cs \<Rightarrow> if c = 0x2d \<or> c = 0x2b then cs else t | [] \<Rightarrow> []);
          ds = filter (\<lambda>c. c \<noteq> 0x5f) body
      in if grouped body \<and> length ds \<le> 4300
         then Inr (if negative then - int (nat_of_decimals ds) else int (nat_of_decimals ds))
         else Inl ValueError)"

text \<open>\<open>a / b\<close> on floats raises on a zero divisor.\<close>

definition py_div :: "real \<Rightarrow> real \<Rightarrow> py_error + real" where
  "py_div a b = (if b = 0 then Inl ZeroDivisionError else Inr (a / b))"

text \<open>\<open>s.split(sep)\<close> for a separator of one character; the result is never empty.\<close>

fun split :: "nat \<Rightarrow> ustr \<Rightarrow> ustr list" where
  "split sep [] = [[]]"
| "split sep (c # cs) =
     (if c = sep then [] # split sep cs
      else (case split sep cs of
              p # ps \<Rightarrow> (c # p) # ps
            | [] \<Rightarrow> [[c]]))"

section \<open>Dates\<close>

text \<open>
  \<open>datetime.datetime.strptime(s, '%Y/%m/%d')\<close>, \<open>None\<close> for its \<open>ValueError\<close>. The
  directive \<open>%Y\<close> is the pattern \<open>\d\d\d\d\<close>: exactly four decimal digits, of any
  script. \<open>%m\<close> is \<open>1[0-2]|0[1-9]|[1-9]\<close>: \<open>1\<close> to \<open>12\<close> in ASCII digits with an optional
  leading zero. \<open>%d\<close> is \<open>3[0-1]|[1-2]\d|0[1-9]|[1-9]| [1-9]\<close>: \<open>1\<close> to \<open>31\<close> in ASCII
  digits with an optional leading zero, or \<open>1\<close> or \<open>2\<close> before a decimal digit of any
  script, or a blank before one digit. Nothing may follow, and the date must exist in the
  calendar (years start at 1).
\<close>

definition month_text :: "ustr \<Rightarrow> bool" where
  "month_text m \<longleftrightarrow>
     all_digits m \<and> (length m = 1 \<or> length m = 2)
     \<and> 1 \<le> nat_of_digits m \<and> nat_of_digits m \<le> 12"

definition day_value :: "ustr \<Rightarrow> nat option" where
  "day_value d =
     (if all_digits d \<and> (length d = 1 \<or> length d = 2)
         \<and> 1 \<le> nat_of_digits d \<and> nat_of_digits d \<le> 31
      then Some (nat_of_digits d)
      else (case d of
              [b, c] \<Rightarrow>
                if b = 0x20 \<and> 0x31 \<le> c \<and> c \<le> 0x39 then Some (c - 0x30)
                else if (b = 0x31 \<or> b = 0x32) \<and> is_decimal c
                then Some (10 * (b - 0x30) + decimal_value c)
                else None
            | _ \<Rightarrow> None))"

definition leap_year :: "nat \<Rightarrow> bool" where
  "leap_year y \<longleftrightarrow> y mod 4 = 0 \<and> (y mod 100 \<noteq> 0 \<or> y mod 400 = 0)"

definition days_in_month :: "nat \<Rightarrow> nat \<Rightarrow> nat" where
  "days_in_month y m =
     (if m = 2 then (if leap_year y then 29 else 28)
      else if m = 4 \<or> m = 6 \<or> m = 9 \<or> m = 11 then 30
      else 31)"

definition strptime :: "ustr \<Rightarrow> (nat \<times> nat \<times> nat) option" where
  "strptime s =
     (case split 0x2f s of
        [y, m, d] \<Rightarrow>
          (if length y = 4 \<and> all_decimals y \<and> month_text m then
             (case day_value d of
                Some dd \<Rightarrow>
                  (if 1 \<le> nat_of_decimals y
                      \<and> dd \<le> days_in_month (nat_of_decimals y) (nat_of_digits m)
                   then Some (nat_of_decimals y, nat_of_digits m, dd)
                   else None)
              | None \<Rightarrow> None)
           else None)
      | _ \<Rightarrow> None)"

text \<open>The month key \<open>f"{date.year}-{date.month:02d}"\<close>.\<close>

definition month_key_of :: "nat \<Rightarrow> nat \<Rightarrow> ustr" where
  "month_key_of y m = show_nat y @ [0x2d] @ pad2 m"

section \<open>The ledger store\<close>

text \<open>\<open>d.get(k, default)\<close> and \<open>d[k] = v\<close> on an insertion-ordered dict.\<close>

definition dict_get :: "('k \<times> 'v) list \<Rightarrow> 'k \<Rightarrow> 'v \<Rightarrow> 'v" where
  "dict_get d k dflt = (case map_of d k of Some v \<Rightarrow> v | None \<Rightarrow> dflt)"

fun dict_set :: "('k \<times> 'v) list \<Rightarrow> 'k \<Rightarrow> 'v \<Rightarrow> ('k \<times> 'v) list" where
  "dict_set [] k v = [(k, v)]"
| "dict_set ((k', v') # rest) k v =
     (if k' = k then (k, v) # rest else (k', v') # dict_set rest k v)"

text \<open>
  \<open>self.expenses[month][category].extend(xs)\<close> on the nested \<open>defaultdict\<close>: both keys
  come into being when absent. \<open>append(e)\<close> is the case \<open>xs = [e]\<close>.
\<close>

definition extend_at :: "ledger \<Rightarrow> ustr \<Rightarrow> ustr \<Rightarrow> expense list \<Rightarrow> ledger" where
  "extend_at L month cat xs =
     (let cats = dict_get L month [];
          old = dict_get cats cat []
      in dict_set L month (dict_set cats cat (old @ xs)))"

text \<open>
  The data file: absent, present with content that makes \<open>load_data\<close> raise (not JSON,
  or not a dict of dicts of lists), or present with a dict of dicts of expense lists.
  \<open>json.dump\<close> followed by \<open>json.load\<close> gives back the value written, so the file holds
  the value itself. Writing is taken to succeed.
\<close>

datatype file_state = NoFile | Unreadable | Content ledger

record tracker =
  expenses :: ledger
  data_file :: file_state

fun load_categories :: "ledger \<Rightarrow> ustr \<Rightarrow> cat_map \<Rightarrow> ledger" where
  "load_categories L month [] = L"
| "load_categories L month ((cat, expense_list) # rest) =
     load_categories (extend_at L month cat expense_list) month rest"

fun load_months :: "ledger \<Rightarrow> ledger \<Rightarrow> ledger" where
  "load_months L [] = L"
| "load_months L ((month, cats) # rest) = load_months (load_categories L month cats) rest"

definition load_data :: "tracker \<Rightarrow> tracker" where
  "load_data st =
     (case data_file st of
        NoFile \<Rightarrow> st
      | Unreadable \<Rightarrow> st\<lparr>expenses := []\<rparr>
      | Content loaded_data \<Rightarrow> st\<lparr>expenses := load_months (expenses st) loaded_data\<rparr>)"

definition save_data :: "tracker \<Rightarrow> tracker" where
  "save_data st = st\<lparr>data_file := Content (expenses st)\<rparr>"

text \<open>\<open>ExpenseTracker(data_file)\<close>: an empty ledger, then \<open>load_data\<close>.\<close>

definition new_tracker :: "file_state \<Rightarrow> tracker" where
  "new_tracker f = load_data \<lparr>expenses = [], data_file = f\<rparr>"

section \<open>add\_expense and parse\_input\<close>

text \<open>
  The first step of \<open>add_expense\<close>: when the text before the first slash has two
  characters, "20" is put before the whole date text.
\<close>

definition normalize_year :: "ustr \<Rightarrow> ustr" where
  "normalize_year date_str =
     (case split 0x2f date_str of
        y # _ \<Rightarrow> if length y = 2 then [0x32, 0x30] @ date_str else date_str
      | [] \<Rightarrow> date_str)"

text \<open>
  \<open>add_expense\<close> returns the tracker it leaves behind and its boolean result. The
  \<open>ValueError\<close> of \<open>strptime\<close> is the branch that returns \<open>False\<close> and changes
  nothing; otherwise the record is appended under the month key of the parsed date and
  the whole ledger is saved. The record keeps the date text, prefixed when the year had
  two digits.
\<close>

definition add_expense ::
  "tracker \<Rightarrow> ustr \<Rightarrow> ustr \<Rightarrow> real \<Rightarrow> ustr option \<Rightarrow> tracker \<times> bool" where
  "add_expense st date_str desc amt cat =
     (let date_str' = normalize_year date_str in
      case strptime date_str' of
        None \<Rightarrow> (st, False)
      | Some (y, m, d) \<Rightarrow>
          (let month_key = month_key_of y m;
               category' = (case cat of None \<Rightarrow> categorize_description desc | Some c \<Rightarrow> c);
               e = \<lparr>date = date_str', description = desc, amount = amt, category = category'\<rparr>
           in (save_data (st\<lparr>expenses := extend_at (expenses st) month_key category' [e]\<rparr>),
               True)))"

text \<open>
  The pattern \<open>(\d{2,4}/\d{1,2}/\d{1,2}),(.+)-(\d+\.?\d*)\<close> (its comma is the full-width
  U+FF0C) under \<open>re.match\<close>, which anchors the match at the start of the text only.

  A bounded run of digits followed by a character that is no digit can only be matched
  by the whole run of digits standing there, so the date part is decided by the lengths
  of the three runs. The digits of \<open>\d\<close> are the decimal digits of every script.
\<close>

definition digit_run :: "nat \<Rightarrow> nat \<Rightarrow> nat \<Rightarrow> ustr \<Rightarrow> (ustr \<times> ustr) option" where
  "digit_run lo hi stop s =
     (let ds = takeWhile is_decimal s in
      if lo \<le> length ds \<and> length ds \<le> hi then
        (case dropWhile is_decimal s of
           c # rest \<Rightarrow> if c = stop then Some (ds, rest) else None
         | [] \<Rightarrow> None)
      else None)"

definition match_date :: "ustr \<Rightarrow> (ustr \<times> ustr) option" where
  "match_date s =
     (case digit_run 2 4 0x2f s of
        None \<Rightarrow> None
      | Some (y, r1) \<Rightarrow>
          (case digit_run 1 2 0x2f r1 of
             None \<Rightarrow> None
           | Some (m, r2) \<Rightarrow>
               (case digit_run 1 2 0xff0c r2 of
                  None \<Rightarrow> None
                | Some (d, r3) \<Rightarrow> Some (y @ [0x2f] @ m @ [0x2f] @ d, r3))))"

text \<open>
  \<open>(.+)-\<close> followed by a digit: \<open>.\<close> takes any character but a line feed, and the group
  is greedy, so of the hyphens that have a digit behind them and a non-empty text free of
  line feeds before them the last one ends the description. \<open>pre\<close> is the text already
  passed; the result is the description and what follows the hyphen.
\<close>

fun split_amount :: "ustr \<Rightarrow> ustr \<Rightarrow> (ustr \<times> ustr) option" where
  "split_amount pre [] = None"
| "split_amount pre (c # cs) =
     (if c = 0x0a then None
      else (case split_amount (pre @ [c]) cs of
              Some r \<Rightarrow> Some r
            | None \<Rightarrow>
                if c = 0x2d \<and> pre \<noteq> [] \<and> (case cs of d # _ \<Rightarrow> is_decimal d | [] \<Rightarrow> False)
                then Some (pre, cs)
                else None))"

text \<open>\<open>(\d+\.?\d*)\<close>, each part greedy: the digits, a dot if one follows, more digits.\<close>

definition take_amount :: "ustr \<Rightarrow> ustr" where
  "take_amount cs =
     (let d1 = takeWhile is_decimal cs in
      case dropWhile is_decimal cs of
        c # rest \<Rightarrow> if c = 0x2e then d1 @ [0x2e] @ takeWhile is_decimal rest else d1
      | [] \<Rightarrow> d1)"

text \<open>
  \<open>float(s)\<close> on such a token, which never raises: the decimal number that the token
  writes (\<open>float\<close> gives the double nearest to it).
\<close>

definition float_of :: "ustr \<Rightarrow> real" where
  "float_of a =
     (let d1 = takeWhile is_decimal a;
          d2 = (case dropWhile is_decimal a of c # rest \<Rightarrow> rest | [] \<Rightarrow> [])
      in real (nat_of_decimals d1) + real (nat_of_decimals d2) / 10 ^ length d2)"

definition parse_input :: "ustr \<Rightarrow> (ustr \<times> ustr \<times> real \<times> ustr option) option" where
  "parse_input input_str =
     (case match_date input_str of
        None \<Rightarrow> None
      | Some (date_str, r) \<Rightarrow>
          (case split_amount [] r of
             None \<Rightarrow> None
           | Some (desc, cs) \<Rightarrow> Some (date_str, desc, float_of (take_amount cs), None)))"

section \<open>Aggregation\<close>

text \<open>\<open>sum(expense['amount'] for expense in monthly_data.get(category, []))\<close>.\<close>

definition category_sum :: "cat_map \<Rightarrow> ustr \<Rightarrow> real" where
  "category_sum monthly_data cat = sum_list (map amount (dict_get monthly_data cat []))"

text \<open>The loop of \<open>get_monthly_summary\<close> over the declared categories, with its two accumulators.\<close>

fun summary_loop ::
  "ustr list \<Rightarrow> cat_map \<Rightarrow> (ustr \<times> real) list \<times> real \<Rightarrow> (ustr \<times> real) list \<times> real" where
  "summary_loop [] monthly_data (category_totals, tot) = (category_totals, tot)"
| "summary_loop (cat # rest) monthly_data (category_totals, tot) =
     (let category_total = category_sum monthly_data cat
      in summary_loop rest monthly_data
           (dict_set category_totals cat category_total, tot + category_total))"

definition get_monthly_summary :: "ledger \<Rightarrow> ustr \<Rightarrow> (ustr \<times> real) list \<times> real" where
  "get_monthly_summary L month_key =
     summary_loop categories (dict_get L month_key []) ([], 0)"

section \<open>The monthly report\<close>

text \<open>
  What a report run ends in. The font lookup of \<open>get_font_path\<close> is the parameter
  \<open>font\<close> (false when it raises \<open>FileNotFoundError\<close>); drawing the charts and the word
  cloud is outside the model and taken to succeed. \<open>Failed e\<close> is the
  \<open>except Exception\<close> branch, \<open>NoRecords\<close> the early return on a total of 0,
  \<open>Report\<close> a run that reaches its end, with what it has computed and printed.
\<close>

datatype 'a report = FontMissing | NoRecords | Failed py_error | Report 'a

text \<open>
  The change shown for a category: the text for "no data for last month", or the text
  \<open>f"{((current - previous) / previous * 100):.1f}%"\<close>. The digits of that text come out
  of double arithmetic and of the format \<open>.1f\<close>; they are not computed here, and
  \<open>Percent current previous\<close> stands for the text by the two totals it is made from.
\<close>

datatype change = NoPriorData | Percent real real

text \<open>
  \<open>year, month = map(int, month_key.split('-'))\<close> and the key of the month before.
  Any count of fields other than two is the \<open>ValueError\<close> of the unpacking.
\<close>

definition prev_month_key :: "ustr \<Rightarrow> py_error + ustr" where
  "prev_month_key month_key =
     (case split 0x2d month_key of
        [ys, ms] \<Rightarrow>
          (case py_int ys of
             Inl e \<Rightarrow> Inl e
           | Inr year \<Rightarrow>
               (case py_int ms of
                  Inl e \<Rightarrow> Inl e
                | Inr month \<Rightarrow>
                    Inr (if 1 < month then show_int year @ [0x2d] @ pad2 (nat (month - 1))
                         else show_int (year - 1) @ [0x2d, 0x31, 0x32])))
      | _ \<Rightarrow> Inl ValueError)"

text \<open>One round of the loop over the categories: the change, and whether it is printed.\<close>

definition change_of :: "real \<Rightarrow> real \<Rightarrow> py_error + change" where
  "change_of current previous =
     (if previous = 0 then Inr NoPriorData
      else (case py_div (current - previous) previous of
              Inl e \<Rightarrow> Inl e
            | Inr q \<Rightarrow> Inr (Percent current previous)))"

fun change_lines ::
  "ustr list \<Rightarrow> (ustr \<times> real) list \<Rightarrow> (ustr \<times> real) list \<Rightarrow> py_error + (ustr \<times> change) list" where
  "change_lines [] category_totals prev_totals = Inr []"
| "change_lines (cat # rest) category_totals prev_totals =
     (let current = dict_get category_totals cat 0;
          previous = dict_get prev_totals cat 0
      in case change_of current previous of
           Inl e \<Rightarrow> Inl e
         | Inr change \<Rightarrow>
             (case change_lines rest category_totals prev_totals of
                Inl e \<Rightarrow> Inl e
              | Inr lines \<Rightarrow>
                  Inr (if 0 < current \<or> 0 < previous then (cat, change) # lines else lines)))"

record monthly_output =
  pie :: "(ustr \<times> real) list"
  month_total :: real
  changes :: "(ustr \<times> change) list"

definition generate_monthly_report :: "bool \<Rightarrow> ledger \<Rightarrow> ustr \<Rightarrow> monthly_output report" where
  "generate_monthly_report font L month_key =
     (if \<not> font then FontMissing
      else
        (let (category_totals, tot) = get_monthly_summary L month_key in
         if tot = 0 then NoRecords
         else
           (case prev_month_key month_key of
              Inl e \<Rightarrow> Failed e
            | Inr prev_month \<Rightarrow>
                (let (prev_totals, _) = get_monthly_summary L prev_month in
                 case change_lines categories category_totals prev_totals of
                   Inl e \<Rightarrow> Failed e
                 | Inr lines \<Rightarrow>
                     Report \<lparr>pie = filter (\<lambda>(cat, amount). 0 < amount) category_totals,
                             month_total = tot,
                             changes = lines\<rparr>))))"

section \<open>The yearly report\<close>

datatype trend_label = Rising | Falling | Stable

text \<open>\<open>max(items, key=lambda x: x[1])\<close>: the first item whose value is the greatest.\<close>

fun max_item :: "(ustr \<times> real) \<Rightarrow> (ustr \<times> real) list \<Rightarrow> (ustr \<times> real)" where
  "max_item best [] = best"
| "max_item best (x # xs) = max_item (if snd best < snd x then x else best) xs"

record yearly_output =
  monthly_totals :: "real list"
  total_year :: real
  category_year_totals :: "(ustr \<times> real) list"
  max_category :: "ustr \<times> real"
  max_share :: real
  monthly_avg :: real
  high_months :: "nat list"
  trend :: trend_label

text \<open>The twelve summaries of the year, months 1 to 12.\<close>

definition year_summaries :: "ledger \<Rightarrow> ustr \<Rightarrow> ((ustr \<times> real) list \<times> real) list" where
  "year_summaries L year =
     map (\<lambda>month. get_monthly_summary L (year @ [0x2d] @ pad2 month)) [1..<13]"

definition trend_of :: "real \<Rightarrow> trend_label" where
  "trend_of t = (if 1 / 10 < t then Rising else if t < - (1 / 10) then Falling else Stable)"

definition generate_yearly_report :: "bool \<Rightarrow> ledger \<Rightarrow> ustr \<Rightarrow> yearly_output report" where
  "generate_yearly_report font L year =
     (if \<not> font then FontMissing
      else
        (let summaries = year_summaries L year;
             totals = map snd summaries
         in
         if sum_list totals = 0 then NoRecords
         else
           (let tot = sum_list totals;
                cat_totals =
                  map (\<lambda>cat. (cat, sum_list (map (\<lambda>s. dict_get (fst s) cat 0) summaries)))
                    categories
            in
            case cat_totals of
              [] \<Rightarrow> Failed ValueError
            | first # others \<Rightarrow>
                (let best = max_item first others in
                 case py_div (snd best) tot of
                   Inl e \<Rightarrow> Failed e
                 | Inr share \<Rightarrow>
                     (let avg = tot / 12;
                          high = filter (\<lambda>m. avg < totals ! (m - 1)) [1..<13]
                      in
                      case (if hd totals \<noteq> 0 then py_div (last totals - hd totals) (hd totals)
                            else Inr 0) of
                        Inl e \<Rightarrow> Failed e
                      | Inr t \<Rightarrow>
                          Report \<lparr>monthly_totals = totals,
                                  total_year = tot,
                                  category_year_totals = cat_totals,
                                  max_category = best,
                                  max_share = share * 100,
                                  monthly_avg = avg,
                                  high_months = high,
                                  trend = trend_of t\<rparr>)))))"

section \<open>Notions used in the properties\<close>

text \<open>The records the ledger holds for a month under a category (none when a key is absent).\<close>

definition month_records :: "ledger \<Rightarrow> ustr \<Rightarrow> ustr \<Rightarrow> expense list" where
  "month_records L month_key cat = dict_get (dict_get L month_key []) cat []"

text \<open>The totals of January, of December and of the whole year, as the yearly report reads them.\<close>

definition january_total :: "ledger \<Rightarrow> ustr \<Rightarrow> real" where
  "january_total L year = snd (get_monthly_summary L (year @ [0x2d] @ pad2 1))"

definition december_total :: "ledger \<Rightarrow> ustr \<Rightarrow> real" where
  "december_total L year = snd (get_monthly_summary L (year @ [0x2d] @ pad2 12))"

definition year_total :: "ledger \<Rightarrow> ustr \<Rightarrow> real" where
  "year_total L year = sum_list (map snd (year_summaries L year))"

text \<open>The trend label a run of the yearly report prints, if it prints one.\<close>

definition report_trend :: "yearly_output report \<Rightarrow> trend_label option" where
  "report_trend r = (case r of Report out \<Rightarrow> Some (trend out) | _ \<Rightarrow> None)"

text \<open>The total of a category in the summary of a month, read as the report reads it.\<close>

definition category_total :: "ledger \<Rightarrow> ustr \<Rightarrow> ustr \<Rightarrow> real" where
  "category_total L month_key cat = dict_get (fst (get_monthly_summary L month_key)) cat 0"


text \<open>
  Well-formed dicts: every key once. This is what a Python dict is, not a restriction on
  the ledgers considered.
\<close>

definition wf_ledger :: "ledger \<Rightarrow> bool" where
  "wf_ledger L \<longleftrightarrow>
     distinct (map fst L) \<and> (\<forall>entry \<in> set L. distinct (map fst (snd entry)))"

text \<open>A month of the ledger whose dict holds at least one category; a ledger of such months.\<close>

definition has_categories :: "ustr \<times> cat_map \<Rightarrow> bool" where
  "has_categories entry \<longleftrightarrow> snd entry \<noteq> []"

definition no_empty_month :: "ledger \<Rightarrow> bool" where
  "no_empty_month L \<longleftrightarrow> list_all has_categories L"

text \<open>
  Structural equivalence of two ledgers: the same month keys, under each the same
  category keys, under each of these the same list of records; the order of keys is not
  compared.
\<close>

definition ledger_view :: "ledger \<Rightarrow> ustr \<Rightarrow> (ustr \<Rightarrow> expense list option) option" where
  "ledger_view L = (\<lambda>month. map_option map_of (map_of L month))"

definition equivalent :: "ledger \<Rightarrow> ledger \<Rightarrow> bool" where
  "equivalent L L' \<longleftrightarrow> ledger_view L = ledger_view L'"

text \<open>Save a ledger, start a new tracker on the file written, save again.\<close>

definition save_load_save :: "ledger \<Rightarrow> file_state \<Rightarrow> tracker" where
  "save_load_save L f =
     save_data (new_tracker (data_file (save_data \<lparr>expenses = L, data_file = f\<rparr>)))"

text \<open>
  The ledger invariant: the date of every record parses to the year and month of the
  month key it is stored under, and its category field is the category key.
\<close>

definition record_ok :: "ustr \<Rightarrow> ustr \<Rightarrow> expense \<Rightarrow> bool" where
  "record_ok month_key cat e \<longleftrightarrow>
     (case strptime (date e) of
        Some (y, m, d) \<Rightarrow> month_key_of y m = month_key
      | None \<Rightarrow> False)
     \<and> category e = cat"

definition cat_entry_ok :: "ustr \<Rightarrow> ustr \<times> expense list \<Rightarrow> bool" where
  "cat_entry_ok month_key entry \<longleftrightarrow> list_all (record_ok month_key (fst entry)) (snd entry)"

definition month_entry_ok :: "ustr \<times> cat_map \<Rightarrow> bool" where
  "month_entry_ok entry \<longleftrightarrow> list_all (cat_entry_ok (fst entry)) (snd entry)"

definition ledger_inv :: "ledger \<Rightarrow> bool" where
  "ledger_inv L \<longleftrightarrow> list_all month_entry_ok L"

definition file_inv :: "file_state \<Rightarrow> bool" where
  "file_inv f \<longleftrightarrow> (case f of Content d \<Rightarrow> ledger_inv d | _ \<Rightarrow> True)"

definition tracker_inv :: "tracker \<Rightarrow> bool" where
  "tracker_inv st \<longleftrightarrow> ledger_inv (expenses st) \<and> file_inv (data_file st)"

text \<open>
  The states of a tracker started on a data file \<open>f0\<close>: the constructor, then any
  sequence of \<open>add_expense\<close> (with any arguments), \<open>save_data\<close> and \<open>load_data\<close>.
\<close>

inductive reachable :: "file_state \<Rightarrow> tracker \<Rightarrow> bool" for f0 :: file_state where
  init: "reachable f0 (new_tracker f0)"
| add: "reachable f0 st \<Longrightarrow> reachable f0 (fst (add_expense st date_str desc amt cat))"
| save: "reachable f0 st \<Longrightarrow> reachable f0 (save_data st)"
| load: "reachable f0 st \<Longrightarrow> reachable f0 (load_data st)"

text \<open>
  The entry line as the specification words it: a date of 2 to 4, 1 to 2 and 1 to 2 digits
  with slashes, the full-width comma, a non-empty description, a hyphen, and an amount
  (digits, optionally a dot and further digits) that ends the line. A digit is a decimal
  digit of any script, as for \<open>\d\<close>.
\<close>

definition date_form :: "ustr \<Rightarrow> bool" where
  "date_form d \<longleftrightarrow>
     (\<exists>y m dd. d = y @ [0x2f] @ m @ [0x2f] @ dd
        \<and> all_decimals y \<and> 2 \<le> length y \<and> length y \<le> 4
        \<and> all_decimals m \<and> 1 \<le> length m \<and> length m \<le> 2
        \<and> all_decimals dd \<and> 1 \<le> length dd \<and> length dd \<le> 2)"

definition amount_form :: "ustr \<Rightarrow> bool" where
  "amount_form a \<longleftrightarrow>
     (\<exists>d1 d2. d1 \<noteq> [] \<and> all_decimals d1 \<and> all_decimals d2 \<and> (a = d1 \<or> a = d1 @ [0x2e] @ d2))"

definition entry_line :: "ustr \<Rightarrow> bool" where
  "entry_line s \<longleftrightarrow>
     (\<exists>d desc a. s = d @ [0xff0c] @ desc @ [0x2d] @ a
        \<and> date_form d \<and> desc \<noteq> [] \<and> amount_form a)"

text \<open>
  The same with any text allowed after the amount, and a description free of line feeds.
\<close>

definition entry_prefix :: "ustr \<Rightarrow> bool" where
  "entry_prefix s \<longleftrightarrow>
     (\<exists>d desc a rest. s = d @ [0xff0c] @ desc @ [0x2d] @ a @ rest
        \<and> date_form d \<and> desc \<noteq> [] \<and> 0x0a \<notin> set desc \<and> amount_form a)"

section \<open>Example data\<close>

text \<open>Descriptions: "KTV" followed by the word for underground railway, and "abc".\<close>

definition desc_two :: ustr where
  "desc_two = [0x4b, 0x54, 0x56, 0x5730, 0x94c1]"

definition desc_none :: ustr where
  "desc_none = [0x61, 0x62, 0x63]"

definition year_2024 :: ustr where \<comment> \<open>2024\<close>
  "year_2024 = [0x32, 0x30, 0x32, 0x34]"

definition key_2024_01 :: ustr where \<comment> \<open>2024-01\<close>
  "key_2024_01 = [0x32, 0x30, 0x32, 0x34, 0x2d, 0x30, 0x31]"

definition key_2024_02 :: ustr where \<comment> \<open>2024-02\<close>
  "key_2024_02 = [0x32, 0x30, 0x32, 0x34, 0x2d, 0x30, 0x32]"

definition key_2024_12 :: ustr where \<comment> \<open>2024-12\<close>
  "key_2024_12 = [0x32, 0x30, 0x32, 0x34, 0x2d, 0x31, 0x32]"

definition key_2023_12 :: ustr where \<comment> \<open>2023-12\<close>
  "key_2023_12 = [0x32, 0x30, 0x32, 0x33, 0x2d, 0x31, 0x32]"

definition date_jan :: ustr where \<comment> \<open>2024/01/05\<close>
  "date_jan = [0x32, 0x30, 0x32, 0x34, 0x2f, 0x30, 0x31, 0x2f, 0x30, 0x35]"

definition date_feb :: ustr where \<comment> \<open>2024/02/14\<close>
  "date_feb = [0x32, 0x30, 0x32, 0x34, 0x2f, 0x30, 0x32, 0x2f, 0x31, 0x34]"

definition date_dec :: ustr where \<comment> \<open>2024/12/24\<close>
  "date_dec = [0x32, 0x30, 0x32, 0x34, 0x2f, 0x31, 0x32, 0x2f, 0x32, 0x34]"

definition meal :: "ustr \<Rightarrow> real \<Rightarrow> expense" where
  "meal d a = \<lparr>date = d, description = [0x996d], amount = a, category = cat_food\<rparr>"

text \<open>A year with 100 in January and nothing after; a year with 100 in January and 130 in December.\<close>

definition ledger_jan_only :: ledger where
  "ledger_jan_only = [(key_2024_01, [(cat_food, [meal date_jan 100])])]"

definition ledger_jan_dec :: ledger where
  "ledger_jan_dec =
     [(key_2024_01, [(cat_food, [meal date_jan 100])]),
      (key_2024_12, [(cat_food, [meal date_dec 130])])]"

text \<open>A month with a meal of 25 and a ride of 5.\<close>

definition ledger_feb :: ledger where
  "ledger_feb =
     [(key_2024_02,
       [(cat_food, [meal date_feb 25]),
        (cat_transport,
         [\<lparr>date = date_feb, description = [0x5730, 0x94c1], amount = 5,
           category = cat_transport\<rparr>])])]"

text \<open>The same month with a further record of 40 under a category that is not declared ("pet").\<close>

definition cat_pet :: ustr where
  "cat_pet = [0x70, 0x65, 0x74]"

definition ledger_feb_foreign :: ledger where
  "ledger_feb_foreign =
     [(key_2024_02,
       [(cat_food, [meal date_feb 25]),
        (cat_pet,
         [\<lparr>date = date_feb, description = [0x63, 0x61, 0x74], amount = 40, category = cat_pet\<rparr>]),
        (cat_transport,
         [\<lparr>date = date_feb, description = [0x5730, 0x94c1], amount = 5,
           category = cat_transport\<rparr>])])]"

text \<open>The entry line of scenario B, and what it is parsed and stored as.\<close>

definition line_B :: ustr where \<comment> \<open>24/02/14, U+5730 U+94C1 - 5, with the full-width comma\<close>
  "line_B = [0x32, 0x34, 0x2f, 0x30, 0x32, 0x2f, 0x31, 0x34, 0xff0c, 0x5730, 0x94c1, 0x2d, 0x35]"

definition date_B :: ustr where \<comment> \<open>24/02/14\<close>
  "date_B = [0x32, 0x34, 0x2f, 0x30, 0x32, 0x2f, 0x31, 0x34]"

definition desc_B :: ustr where \<comment> \<open>U+5730 U+94C1, underground railway\<close>
  "desc_B = [0x5730, 0x94c1]"

definition ledger_B :: ledger where
  "ledger_B =
     [(key_2024_02,
       [(cat_transport,
         [\<lparr>date = date_feb, description = desc_B, amount = 5, category = cat_transport\<rparr>])])]"

text \<open>The line of scenario B with its amount written as the full-width digit five (U+FF15).\<close>

definition line_wide :: ustr where
  "line_wide = [0x32, 0x34, 0x2f, 0x30, 0x32, 0x2f, 0x31, 0x34, 0xff0c, 0x5730, 0x94c1, 0x2d, 0xff15]"

text \<open>
  An entry line with two hyphens: 24/02/14, underground line 2 - 5, where the digit 2 stands
  behind the first hyphen; the description is "underground - 2 line".
\<close>

definition line_metro :: ustr where
  "line_metro =
     [0x32, 0x34, 0x2f, 0x30, 0x32, 0x2f, 0x31, 0x34, 0xff0c,
      0x5730, 0x94c1, 0x2d, 0x32, 0x53f7, 0x7ebf, 0x2d, 0x35]"

definition desc_metro :: ustr where
  "desc_metro = [0x5730, 0x94c1, 0x2d, 0x32, 0x53f7, 0x7ebf]"

text \<open>An entry line with a unit written after the amount: 2024/02/14, lunch - 25 yuan.\<close>

definition line_yuan :: ustr where
  "line_yuan = [0x32, 0x30, 0x32, 0x34, 0x2f, 0x30, 0x32, 0x2f, 0x31, 0x34, 0xff0c, 0x5348, 0x9910, 0x2d, 0x32, 0x35, 0x5143]"

text \<open>A ledger with a month that has no category.\<close>

definition ledger_empty_month :: ledger where
  "ledger_empty_month = [(key_2024_01, [])]"

text \<open>
  A data file whose record is dated February and labelled transport, stored under January
  and under dining.
\<close>

definition misfiled :: file_state where
  "misfiled =
     Content [(key_2024_01,
       [(cat_food,
         [\<lparr>date = date_feb, description = desc_B, amount = 5, category = cat_transport\<rparr>])])]"

text \<open>January with a meal of 100, February with a meal of 25 and a ride of 5.\<close>

definition ledger_jan_feb :: ledger where
  "ledger_jan_feb = (key_2024_01, [(cat_food, [meal date_jan 100])]) # ledger_feb"

text \<open>
  Month keys of the year 999: May and April with the year padded to four digits, and
  April as \<open>add_expense\<close> writes it.
\<close>

definition key_0999_05 :: ustr where \<comment> \<open>0999-05\<close>
  "key_0999_05 = [0x30, 0x39, 0x39, 0x39, 0x2d, 0x30, 0x35]"

definition key_0999_04 :: ustr where \<comment> \<open>0999-04\<close>
  "key_0999_04 = [0x30, 0x39, 0x39, 0x39, 0x2d, 0x30, 0x34]"

definition key_999_04 :: ustr where \<comment> \<open>999-04\<close>
  "key_999_04 = [0x39, 0x39, 0x39, 0x2d, 0x30, 0x34]"

section \<open>Auxiliary facts\<close>

lemma categories_eq: "categories = [cat_food, cat_fun, cat_transport, cat_shopping, cat_other]"
  by (simp add: categories_def category_keywords_def)

lemma distinct_categories: "distinct categories"
  by (simp add: categories_eq cat_food_def cat_fun_def cat_transport_def cat_shopping_def cat_other_def)

lemma dict_set_fresh: "k \<notin> fst ` set d \<Longrightarrow> dict_set d k v = d @ [(k, v)]"
  by (induction d) auto

lemma summary_loop_eq:
  "distinct cs \<Longrightarrow> set cs \<inter> fst ` set cts = {} \<Longrightarrow>
   summary_loop cs md (cts, t) =
     (cts @ map (\<lambda>c. (c, category_sum md c)) cs, t + sum_list (map (category_sum md) cs))"
proof (induction cs arbitrary: cts t)
  case Nil
  then show ?case by simp
next
  case (Cons c cs)
  from Cons.prems have fresh: "c \<notin> fst ` set cts" by auto
  from Cons.prems have "distinct cs" "set cs \<inter> fst ` set (cts @ [(c, category_sum md c)]) = {}"
    by auto
  then show ?case
    using Cons.IH [of "cts @ [(c, category_sum md c)]" "t + category_sum md c"]
    by (simp add: dict_set_fresh [OF fresh] Let_def add.assoc)
qed

lemma get_monthly_summary_eq:
  "get_monthly_summary L k =
     (map (\<lambda>c. (c, category_sum (dict_get L k []) c)) categories,
      sum_list (map (category_sum (dict_get L k [])) categories))"
  using summary_loop_eq [of categories "[]" "dict_get L k []" 0]
  by (simp add: get_monthly_summary_def distinct_categories)

lemma sum_list_all_zero: "\<forall>x \<in> set xs. f x = (0::real) \<Longrightarrow> sum_list (map f xs) = 0"
  by (induction xs) auto

lemma summary_of_no_records:
  assumes "\<forall>c \<in> set categories. month_records L k c = []"
  shows "get_monthly_summary L k = (map (\<lambda>c. (c, 0)) categories, 0)"
proof -
  from assms have z: "\<forall>c \<in> set categories. category_sum (dict_get L k []) c = 0"
    by (simp add: category_sum_def month_records_def)
  then have e1: "map (\<lambda>c. (c, category_sum (dict_get L k []) c)) categories = map (\<lambda>c. (c, 0)) categories"
    by simp
  from z have e2: "sum_list (map (category_sum (dict_get L k [])) categories) = 0"
    by (rule sum_list_all_zero)
  from e1 e2 show ?thesis by (simp add: get_monthly_summary_eq)
qed

lemma summary_agree:
  assumes "\<forall>c \<in> set categories. month_records L k c = month_records L' k c"
  shows "get_monthly_summary L k = get_monthly_summary L' k"
proof -
  from assms have z: "\<forall>c \<in> set categories.
      category_sum (dict_get L k []) c = category_sum (dict_get L' k []) c"
    by (simp add: category_sum_def month_records_def)
  then have e1: "map (\<lambda>c. (c, category_sum (dict_get L k []) c)) categories
      = map (\<lambda>c. (c, category_sum (dict_get L' k []) c)) categories"
    by simp
  from z have e2: "map (category_sum (dict_get L k [])) categories
      = map (category_sum (dict_get L' k [])) categories"
    by simp
  show ?thesis unfolding get_monthly_summary_eq e1 e2 ..
qed

lemma hd_totals: "hd (map snd (year_summaries L y)) = january_total L y"
  by (simp add: year_summaries_def january_total_def upt_conv_Cons)

lemma last_totals: "last (map snd (year_summaries L y)) = december_total L y"
  by (simp add: year_summaries_def december_total_def last_map)

lemma yearly_trend:
  assumes "font" "year_total L y \<noteq> 0"
  shows "report_trend (generate_yearly_report font L y) =
     Some (trend_of (if january_total L y \<noteq> 0
                     then (december_total L y - january_total L y) / january_total L y
                     else 0))"
  using assms
  by (simp add: generate_yearly_report_def Let_def categories_eq py_div_def report_trend_def
      hd_totals last_totals year_total_def)


lemmas cat_defs = cat_food_def cat_fun_def cat_transport_def cat_shopping_def cat_other_def cat_pet_def

lemmas ex_defs = year_2024_def key_2024_01_def key_2024_02_def key_2024_12_def date_jan_def
  date_feb_def date_dec_def meal_def ledger_jan_only_def ledger_jan_dec_def ledger_feb_def
  ledger_feb_foreign_def line_B_def date_B_def desc_B_def ledger_B_def line_yuan_def
  ledger_empty_month_def misfiled_def key_2023_12_def ledger_jan_feb_def line_wide_def
  key_0999_05_def key_0999_04_def key_999_04_def

lemmas eval_defs = get_monthly_summary_eq categories_eq category_sum_def dict_get_def

lemma show_nat_small: "n < 10 \<Longrightarrow> show_nat n = [0x30 + n]"
  by (subst show_nat.simps) simp

lemma show_nat_big: "\<not> n < 10 \<Longrightarrow> show_nat n = show_nat (n div 10) @ [0x30 + n mod 10]"
  by (subst show_nat.simps) simp

lemma pad2_values:
  "pad2 1 = [0x30, 0x31]" "pad2 2 = [0x30, 0x32]" "pad2 3 = [0x30, 0x33]" "pad2 4 = [0x30, 0x34]"
  "pad2 5 = [0x30, 0x35]" "pad2 6 = [0x30, 0x36]" "pad2 7 = [0x30, 0x37]" "pad2 8 = [0x30, 0x38]"
  "pad2 9 = [0x30, 0x39]" "pad2 10 = [0x31, 0x30]" "pad2 11 = [0x31, 0x31]" "pad2 12 = [0x31, 0x32]"
  "pad2 (Suc 0) = [0x30, 0x31]"
  by (simp_all add: pad2_def show_nat_small show_nat_big)

lemma months_unfold: "[1..<13] = [1, 2, 3, 4, 5, 6, 7, 8, 9, 10, 11, 12]"
  by (simp add: upt_conv_Cons)

lemma year_summaries_unfold:
  "year_summaries L y =
     map (\<lambda>k. get_monthly_summary L (y @ 0x2d # k))
       [[0x30, 0x31], [0x30, 0x32], [0x30, 0x33], [0x30, 0x34], [0x30, 0x35], [0x30, 0x36],
        [0x30, 0x37], [0x30, 0x38], [0x30, 0x39], [0x31, 0x30], [0x31, 0x31], [0x31, 0x32]]"
  unfolding year_summaries_def months_unfold by (simp add: pad2_def show_nat_small show_nat_big)

lemma nat_of_digits_snoc: "nat_of_digits (xs @ [c]) = 10 * nat_of_digits xs + (c - 0x30)"
  by (simp add: nat_of_digits_def)

lemma nat_of_digits_zero: "nat_of_digits (0x30 # xs) = nat_of_digits xs"
  by (simp add: nat_of_digits_def)

lemma all_digits_append: "all_digits (xs @ ys) \<longleftrightarrow> all_digits xs \<and> all_digits ys"
  by (simp add: all_digits_def)

lemma show_nat_digits: "all_digits (show_nat n)"
proof (induction n rule: show_nat.induct)
  case (1 n)
  show ?case
  proof (cases "n < 10")
    case True
    then show ?thesis by (simp add: show_nat_small all_digits_def is_digit_def)
  next
    case False
    have "n mod 10 < 10" by simp
    then have "is_digit (0x30 + n mod 10)" unfolding is_digit_def by linarith
    with False "1.IH" show ?thesis
      by (simp add: show_nat_big all_digits_append) (simp add: all_digits_def)
  qed
qed

lemma show_nat_value: "nat_of_digits (show_nat n) = n"
proof (induction n rule: show_nat.induct)
  case (1 n)
  show ?case
  proof (cases "n < 10")
    case True
    then show ?thesis by (simp add: show_nat_small nat_of_digits_def)
  next
    case False
    with "1.IH" show ?thesis
      by (simp add: show_nat_big nat_of_digits_snoc)
  qed
qed

lemma show_nat_nonempty: "show_nat n \<noteq> []"
  by (cases "n < 10") (simp_all add: show_nat_small show_nat_big)

lemma pad2_digits: "all_digits (pad2 m)"
  using show_nat_digits [of m] by (simp add: pad2_def all_digits_def is_digit_def)

lemma pad2_value: "nat_of_digits (pad2 m) = m"
  by (simp add: pad2_def nat_of_digits_zero show_nat_value)

lemma pad2_nonempty: "pad2 m \<noteq> []"
  by (simp add: pad2_def show_nat_nonempty)

lemma digits_no_hyphen: "all_digits s \<Longrightarrow> 0x2d \<notin> set s"
  by (auto simp: all_digits_def list_all_iff is_digit_def)




lemmas decimal_eval = is_decimal_def decimal_base_def decimal_value_def decimal_zeros_def

lemma ascii_digit_base: "is_digit c \<Longrightarrow> decimal_base c = Some 0x30"
  by (simp add: is_digit_def decimal_base_def decimal_zeros_def)

lemma ascii_is_decimal: "is_digit c \<Longrightarrow> is_decimal c"
  by (simp add: is_decimal_def ascii_digit_base)

lemma ascii_decimal_value: "is_digit c \<Longrightarrow> decimal_value c = c - 0x30"
  by (simp add: decimal_value_def ascii_digit_base)

lemma all_digits_decimals: "all_digits s \<Longrightarrow> all_decimals s"
  by (simp add: all_digits_def all_decimals_def list_all_iff ascii_is_decimal)

lemma nat_of_decimals_snoc:
  "nat_of_decimals (xs @ [c]) = 10 * nat_of_decimals xs + decimal_value c"
  by (simp add: nat_of_decimals_def)

lemma nat_of_decimals_ascii: "all_digits s \<Longrightarrow> nat_of_decimals s = nat_of_digits s"
proof (induction s rule: rev_induct)
  case Nil
  then show ?case by (simp add: nat_of_decimals_def nat_of_digits_def)
next
  case (snoc c s)
  then have "all_digits s" "is_digit c"
    by (simp_all add: all_digits_def)
  with snoc.IH show ?case
    by (simp add: nat_of_decimals_snoc nat_of_digits_snoc ascii_decimal_value)
qed



lemma marks_not_decimal:
  "\<not> is_decimal 0x2d" "\<not> is_decimal 0x2b" "\<not> is_decimal 0x5f" "\<not> is_decimal 0x2f"
  "\<not> is_decimal 0xff0c" "\<not> is_decimal 0x2e"
  by (simp_all add: decimal_eval)

lemma all_decimals_append: "all_decimals (xs @ ys) \<longleftrightarrow> all_decimals xs \<and> all_decimals ys"
  by (simp add: all_decimals_def)














lemma show_2024: "show_nat 2024 = year_2024" "show_nat 2023 = [0x32, 0x30, 0x32, 0x33]"
  by (simp_all add: show_nat_small show_nat_big year_2024_def)

lemma keys_2024:
  "month_key_of 2024 1 = key_2024_01" "month_key_of 2024 2 = key_2024_02"
  "month_key_of 2023 12 = key_2023_12" "month_key_of 2024 (Suc 0) = key_2024_01"
  by (simp_all add: month_key_of_def show_2024 pad2_values ex_defs)

section \<open>Classification is total and first-match\<close>

lemma match_keywords_iff: "match_keywords ks d \<longleftrightarrow> (\<exists>k \<in> set ks. sublist (lower k) d)"
  by (induction ks) auto

lemma scan_categories_find:
  "scan_categories tbl (lower desc) =
     map_option fst (find (\<lambda>entry. has_keyword entry desc) tbl)"
  by (induction tbl) (auto simp: match_keywords_iff has_keyword_def)

lemma cat_other_declared: "cat_other \<in> set categories"
  by (simp add: categories_def category_keywords_def)

lemma categorize_is_spec: "categorize_description desc = classify_spec desc"
  by (simp add: categorize_description_def classify_spec_def scan_categories_find
      split: option.splits)

lemma classify_spec_declared: "classify_spec desc \<in> set categories"
proof (cases "find (\<lambda>entry. has_keyword entry desc) category_keywords")
  case None
  then show ?thesis by (simp add: classify_spec_def cat_other_declared)
next
  case (Some entry)
  then have "entry \<in> set category_keywords"
    by (auto simp: find_Some_iff)
  with Some show ?thesis by (simp add: classify_spec_def categories_def)
qed

lemma classify_spec_first:
  assumes "i < length category_keywords" "has_keyword (category_keywords ! i) desc"
  shows "\<exists>j \<le> i. classify_spec desc = fst (category_keywords ! j)
           \<and> has_keyword (category_keywords ! j) desc
           \<and> (\<forall>k < j. \<not> has_keyword (category_keywords ! k) desc)"
proof -
  from assms have "category_keywords ! i \<in> set category_keywords"
    by simp
  with assms(2) have "find (\<lambda>entry. has_keyword entry desc) category_keywords \<noteq> None"
    unfolding find_None_iff by blast
  then obtain entry where f: "find (\<lambda>entry. has_keyword entry desc) category_keywords = Some entry"
    by blast
  then obtain j where j: "j < length category_keywords" "has_keyword (category_keywords ! j) desc"
      "entry = category_keywords ! j" "\<forall>k < j. \<not> has_keyword (category_keywords ! k) desc"
    by (auto simp: find_Some_iff)
  have "j \<le> i"
  proof (rule ccontr)
    assume "\<not> j \<le> i"
    then have "i < j" by simp
    with j(4) assms(2) show False by blast
  qed
  with f j show ?thesis by (auto simp: classify_spec_def)
qed

lemma classify_spec_default:
  assumes "\<forall>entry \<in> set category_keywords. \<not> has_keyword entry desc"
  shows "classify_spec desc = cat_other"
proof -
  from assms have "find (\<lambda>entry. has_keyword entry desc) category_keywords = None"
    by (simp add: find_None_iff)
  then show ?thesis by (simp add: classify_spec_def)
qed

text \<open>
  Claim C3. For every description, \<open>categorize_description\<close> returns a declared category;
  it is the first category, in declaration order, one of whose keywords is a substring
  of the lower-cased description; when keywords of several categories occur the
  earliest-declared of them is returned, and when no declared keyword occurs the default
  category \<open>cat_other\<close> is returned.
\<close>

theorem categorize_description_first_match:
  "categorize_description desc \<in> set categories
   \<and> categorize_description desc = classify_spec desc
   \<and> (\<forall>i < length category_keywords. has_keyword (category_keywords ! i) desc \<longrightarrow>
        (\<exists>j \<le> i. categorize_description desc = fst (category_keywords ! j)
           \<and> has_keyword (category_keywords ! j) desc
           \<and> (\<forall>k < j. \<not> has_keyword (category_keywords ! k) desc)))
   \<and> ((\<forall>entry \<in> set category_keywords. \<not> has_keyword entry desc) \<longrightarrow>
        categorize_description desc = cat_other)"
  using classify_spec_declared [of desc] classify_spec_first [of _ desc]
    classify_spec_default [of desc]
  by (simp add: categorize_is_spec)

lemmas kw_eval = has_keyword_def category_keywords_def desc_two_def desc_none_def lower_def
  lower_cp_def sublist_code

theorem categorize_description_first_match_witness:
  "has_keyword (category_keywords ! 1) desc_two
   \<and> has_keyword (category_keywords ! 2) desc_two
   \<and> categorize_description desc_two = cat_fun
   \<and> categorize_description desc_none = cat_other"
proof -
  have h0: "\<not> has_keyword (category_keywords ! 0) desc_two"
    by (simp add: kw_eval)
  have h1: "has_keyword (category_keywords ! 1) desc_two"
    by (simp add: kw_eval)
  have h2: "has_keyword (category_keywords ! 2) desc_two"
    by (simp add: kw_eval)
  have len: "1 < length category_keywords"
    by (simp add: category_keywords_def)
  have hn: "\<forall>entry \<in> set category_keywords. \<not> has_keyword entry desc_none"
    by (simp add: kw_eval)
  from categorize_description_first_match [of desc_two] h1 len
  obtain j where j: "j \<le> 1" "categorize_description desc_two = fst (category_keywords ! j)"
      "has_keyword (category_keywords ! j) desc_two"
    by blast
  from j(1) have "j = 0 \<or> j = 1" by auto
  with j(3) h0 have "j = 1" by auto
  with j(2) have two: "categorize_description desc_two = cat_fun"
    by (simp add: category_keywords_def)
  from categorize_description_first_match [of desc_none] hn
  have none: "categorize_description desc_none = cat_other"
    by blast
  from h1 h2 two none show ?thesis by simp
qed

section \<open>The trend of a year\<close>

lemma jan_dec_totals:
  "january_total ledger_jan_dec year_2024 = 100" "december_total ledger_jan_dec year_2024 = 130"
  unfolding january_total_def december_total_def pad2_values
  by (simp_all add: eval_defs ex_defs cat_defs)

lemma jan_dec_year_total: "year_total ledger_jan_dec year_2024 = 230"
  unfolding year_total_def year_summaries_unfold
  by (simp add: eval_defs ex_defs cat_defs)

lemma jan_only_totals:
  "map snd (year_summaries ledger_jan_only year_2024) = [100, 0, 0, 0, 0, 0, 0, 0, 0, 0, 0, 0]"
  unfolding year_summaries_unfold
  by (simp add: eval_defs ex_defs cat_defs)

theorem jan_only_is_falling:
  "map snd (year_summaries ledger_jan_only year_2024) = [100, 0, 0, 0, 0, 0, 0, 0, 0, 0, 0, 0]
   \<and> report_trend (generate_yearly_report True ledger_jan_only year_2024) = Some Falling"
proof -
  have "report_trend (generate_yearly_report True ledger_jan_only year_2024) = Some Falling"
    by (simp add: generate_yearly_report_def Let_def py_div_def report_trend_def trend_of_def
        jan_only_totals categories_eq)
  with jan_only_totals show ?thesis by simp
qed

text \<open>
  Claim C1, as amended. With the font found: a year whose monthly totals are 100 for
  January and 0 for every other month is labelled "falling" (the ratio of December to
  January is -1), and a year with a non-zero total, 100 in January and 130 in December
  is labelled "rising". The example before shows that the first label is printed, so
  "never falling" does not hold.
\<close>

theorem scenario_D_trend:
  "(font \<and> map snd (year_summaries L y) = [100, 0, 0, 0, 0, 0, 0, 0, 0, 0, 0, 0] \<longrightarrow>
      report_trend (generate_yearly_report font L y) = Some Falling)
   \<and> (font \<and> year_total L y \<noteq> 0 \<and> january_total L y = 100 \<and> december_total L y = 130 \<longrightarrow>
      report_trend (generate_yearly_report font L y) = Some Rising)"
proof -
  have a: "report_trend (generate_yearly_report font L y) = Some Falling"
    if "font" and t: "map snd (year_summaries L y) = [100, 0, 0, 0, 0, 0, 0, 0, 0, 0, 0, 0]"
  proof -
    have "year_total L y \<noteq> 0" by (simp add: year_total_def t)
    moreover have "january_total L y = 100" using hd_totals [of L y] by (simp add: t)
    moreover have "december_total L y = 0" using last_totals [of L y] by (simp add: t)
    ultimately show ?thesis using yearly_trend [OF \<open>font\<close>, of L y] by (simp add: trend_of_def)
  qed
  have b: "report_trend (generate_yearly_report font L y) = Some Rising"
    if "font" "year_total L y \<noteq> 0" "january_total L y = 100" "december_total L y = 130"
    using yearly_trend [OF that(1,2)] that(3,4) by (simp add: trend_of_def)
  show ?thesis
  proof (intro conjI impI)
    assume "font \<and> map snd (year_summaries L y) = [100, 0, 0, 0, 0, 0, 0, 0, 0, 0, 0, 0]"
    then show "report_trend (generate_yearly_report font L y) = Some Falling"
      using a by simp
  next
    assume "font \<and> year_total L y \<noteq> 0 \<and> january_total L y = 100 \<and> december_total L y = 130"
    then show "report_trend (generate_yearly_report font L y) = Some Rising"
      using b by simp
  qed
qed

theorem scenario_D_trend_witness:
  "map snd (year_summaries ledger_jan_only year_2024) = [100, 0, 0, 0, 0, 0, 0, 0, 0, 0, 0, 0]
   \<and> report_trend (generate_yearly_report True ledger_jan_only year_2024) = Some Falling
   \<and> year_total ledger_jan_dec year_2024 \<noteq> 0
   \<and> january_total ledger_jan_dec year_2024 = 100
   \<and> december_total ledger_jan_dec year_2024 = 130
   \<and> report_trend (generate_yearly_report True ledger_jan_dec year_2024) = Some Rising"
  using scenario_D_trend [of True ledger_jan_only year_2024]
    scenario_D_trend [of True ledger_jan_dec year_2024]
  by (simp add: jan_only_totals jan_dec_totals jan_dec_year_total)

section \<open>Undeclared categories\<close>

lemma summaries_agree:
  assumes "\<forall>k. \<forall>c \<in> set categories. month_records L k c = month_records L' k c"
  shows "get_monthly_summary L = get_monthly_summary L'"
proof
  fix k
  from assms have "\<forall>c \<in> set categories. month_records L k c = month_records L' k c"
    by blast
  then show "get_monthly_summary L k = get_monthly_summary L' k"
    by (rule summary_agree)
qed

text \<open>
  Claim C10. The summaries read the ledger only under the declared categories: two
  ledgers that hold the same records under every declared category of every month,
  whatever they hold under other category keys, have the same monthly summary (category
  totals and overall total), the same monthly report and the same yearly report. So the
  amounts of records stored under an undeclared category key, whether loaded from the
  data file or appended with an explicit category, enter no total.
\<close>

theorem undeclared_categories_ignored:
  assumes "\<forall>k. \<forall>c \<in> set categories. month_records L k c = month_records L' k c"
  shows "get_monthly_summary L k = get_monthly_summary L' k
     \<and> generate_monthly_report font L k = generate_monthly_report font L' k
     \<and> generate_yearly_report font L y = generate_yearly_report font L' y"
  unfolding generate_monthly_report_def generate_yearly_report_def year_summaries_def
    summaries_agree [OF assms]
  by simp

lemma feb_foreign_agrees:
  "\<forall>k. \<forall>c \<in> set categories. month_records ledger_feb_foreign k c = month_records ledger_feb k c"
  by (auto simp: month_records_def dict_get_def categories_eq ex_defs cat_defs)

theorem undeclared_categories_ignored_witness:
  "map amount (month_records ledger_feb_foreign key_2024_02 cat_pet) = [40]
   \<and> get_monthly_summary ledger_feb_foreign key_2024_02 = get_monthly_summary ledger_feb key_2024_02
   \<and> snd (get_monthly_summary ledger_feb_foreign key_2024_02) = 30"
proof -
  have a: "map amount (month_records ledger_feb_foreign key_2024_02 cat_pet) = [40]"
    by (simp add: month_records_def dict_get_def ex_defs cat_defs)
  have b: "snd (get_monthly_summary ledger_feb key_2024_02) = 30"
    by (simp add: eval_defs ex_defs cat_defs)
  from undeclared_categories_ignored [OF feb_foreign_agrees, of key_2024_02] a b
  show ?thesis by simp
qed

section \<open>The comparison with the month before\<close>













section \<open>Two-digit years\<close>

lemma split_nonempty: "split sep s \<noteq> []"
  by (induction s) (auto split: list.splits)

lemma hd_split_Cons: "c \<noteq> sep \<Longrightarrow> hd (split sep (c # cs)) = c # hd (split sep cs)"
  using split_nonempty [of sep cs] by (cases "split sep cs") auto

lemma normalize_year_hd:
  "normalize_year d = (if length (hd (split 0x2f d)) = 2 then [0x32, 0x30] @ d else d)"
  using split_nonempty [of "0x2f" d] by (cases "split 0x2f d") (auto simp: normalize_year_def)

lemma normalize_year_idem:
  assumes "length (hd (split 0x2f d)) = 2"
  shows "normalize_year ([0x32, 0x30] @ d) = [0x32, 0x30] @ d"
proof -
  have "hd (split 0x2f (0x30 # d)) = 0x30 # hd (split 0x2f d)"
    by (rule hd_split_Cons) simp
  moreover have "hd (split 0x2f (0x32 # 0x30 # d)) = 0x32 # hd (split 0x2f (0x30 # d))"
    by (rule hd_split_Cons) simp
  ultimately have "length (hd (split 0x2f (0x32 # 0x30 # d))) \<noteq> 2"
    using assms by (simp del: split.simps)
  then show ?thesis by (simp add: normalize_year_hd del: split.simps)
qed

lemma normalize_two_digit_year:
  assumes "length (hd (split 0x2f d)) = 2"
  shows "normalize_year d = [0x32, 0x30] @ d"
  using assms by (simp add: normalize_year_hd)

lemma add_expense_two_digit_year:
  assumes "length (hd (split 0x2f d)) = 2"
  shows "add_expense st d desc a c = add_expense st ([0x32, 0x30] @ d) desc a c"
  unfolding add_expense_def normalize_two_digit_year [OF assms] normalize_year_idem [OF assms] ..

lemma parse_line_B: "parse_input line_B = Some (date_B, desc_B, 5, None)"
proof -
  have md: "match_date line_B = Some (date_B, [0x5730, 0x94c1, 0x2d, 0x35])"
    by (simp add: match_date_def digit_run_def decimal_eval line_B_def date_B_def)
  have sa: "split_amount [] [0x5730, 0x94c1, 0x2d, 0x35] = Some (desc_B, [0x35])"
    by (simp add: decimal_eval desc_B_def)
  have ta: "take_amount [0x35] = [0x35]"
    by (simp add: take_amount_def decimal_eval)
  have fo: "float_of [0x35] = 5"
    by (simp add: float_of_def decimal_eval nat_of_decimals_def)
  show ?thesis
    unfolding parse_input_def md by (simp only: option.case prod.case sa ta fo)
qed

lemma normalize_date_B: "normalize_year date_B = date_feb"
  by (simp add: normalize_year_def date_B_def date_feb_def)

lemma strptime_date_feb: "strptime date_feb = Some (2024, 2, 14)"
  by (simp add: strptime_def date_feb_def month_text_def day_value_def all_digits_def is_digit_def
      nat_of_digits_def all_decimals_def decimal_eval nat_of_decimals_def days_in_month_def
      leap_year_def)

lemma categorize_desc_B: "categorize_description desc_B = cat_transport"
  by (simp add: categorize_description_def category_keywords_def desc_B_def lower_def lower_cp_def
      sublist_code)

lemma add_line_B:
  "add_expense \<lparr>expenses = [], data_file = NoFile\<rparr> date_B desc_B 5 None =
     (\<lparr>expenses = ledger_B, data_file = Content ledger_B\<rparr>, True)"
  by (simp add: add_expense_def normalize_date_B strptime_date_feb categorize_desc_B keys_2024
      extend_at_def dict_get_def save_data_def ledger_B_def Let_def)

text \<open>
  Claim C7. A date whose year field (the text before the first slash) has two characters
  is parsed and stored with "20" put before it: \<open>add_expense\<close> then behaves as on the
  prefixed date. The entry line of scenario B parses to the date 24/02/14, the
  description and the amount 5; adding it to an empty ledger stores one record under the
  month key 2024-02 and the category transport, dated 2024/02/14 (year 2024), amount 5,
  and saves the ledger.
\<close>

theorem two_digit_year_normalized:
  "(length (hd (split 0x2f d)) = 2 \<longrightarrow>
      normalize_year d = [0x32, 0x30] @ d
      \<and> add_expense st d desc a c = add_expense st ([0x32, 0x30] @ d) desc a c)
   \<and> parse_input line_B = Some (date_B, desc_B, 5, None)
   \<and> add_expense \<lparr>expenses = [], data_file = NoFile\<rparr> date_B desc_B 5 None =
       (\<lparr>expenses = ledger_B, data_file = Content ledger_B\<rparr>, True)
   \<and> strptime (normalize_year date_B) = Some (2024, 2, 14)
   \<and> month_key_of 2024 2 = key_2024_02"
  using add_expense_two_digit_year [of d st desc a c] normalize_two_digit_year [of d]
    parse_line_B add_line_B normalize_date_B strptime_date_feb keys_2024(2)
  by (simp del: split.simps)

theorem two_digit_year_normalized_witness:
  "length (hd (split 0x2f date_B)) = 2
   \<and> normalize_year date_B = [0x32, 0x30] @ date_B
   \<and> add_expense \<lparr>expenses = [], data_file = NoFile\<rparr> ([0x32, 0x30] @ date_B) desc_B 5 None =
       (\<lparr>expenses = ledger_B, data_file = Content ledger_B\<rparr>, True)"
proof -
  have l: "length (hd (split 0x2f date_B)) = 2"
    by (simp add: date_B_def)
  note g = two_digit_year_normalized [of date_B, THEN conjunct1, rule_format, OF l]
  note h = two_digit_year_normalized [of date_B, THEN conjunct2, THEN conjunct2, THEN conjunct1]
  from g have n: "normalize_year date_B = [0x32, 0x30] @ date_B"
    by (rule conjunct1)
  from g have a: "add_expense \<lparr>expenses = [], data_file = NoFile\<rparr> date_B desc_B 5 None =
      add_expense \<lparr>expenses = [], data_file = NoFile\<rparr> ([0x32, 0x30] @ date_B) desc_B 5 None"
    by (rule conjunct2)
  note b = trans [OF a [symmetric] h]
  from l n b show ?thesis by (intro conjI)
qed

section \<open>Saving and loading\<close>

lemma dict_set_last: "k \<notin> fst ` set d \<Longrightarrow> dict_set (d @ [(k, v0)]) k v = d @ [(k, v)]"
  by (induction d) auto

lemma map_of_absent: "k \<notin> fst ` set d \<Longrightarrow> map_of d k = None"
  by (simp add: map_of_eq_None_iff)

lemma map_of_last: "k \<notin> fst ` set d \<Longrightarrow> map_of (d @ [(k, v)]) k = Some v"
  by (simp add: map_of_absent map_add_def)

lemma extend_at_fresh:
  "month \<notin> fst ` set L \<Longrightarrow> extend_at L month c xs = L @ [(month, [(c, xs)])]"
  by (simp add: extend_at_def dict_get_def map_of_absent dict_set_fresh)

lemma extend_at_last:
  "month \<notin> fst ` set L \<Longrightarrow> c \<notin> fst ` set cats \<Longrightarrow>
   extend_at (L @ [(month, cats)]) month c xs = L @ [(month, cats @ [(c, xs)])]"
  by (simp add: extend_at_def dict_get_def map_add_def map_of_absent dict_set_last dict_set_fresh)

lemma load_categories_last:
  "month \<notin> fst ` set L \<Longrightarrow> distinct (map fst cats') \<Longrightarrow>
   fst ` set cats \<inter> fst ` set cats' = {} \<Longrightarrow>
   load_categories (L @ [(month, cats)]) month cats' = L @ [(month, cats @ cats')]"
proof (induction cats' arbitrary: cats)
  case Nil
  then show ?case by simp
next
  case (Cons entry cats')
  obtain c xs where entry: "entry = (c, xs)" by (cases entry)
  from Cons.prems entry have fresh: "c \<notin> fst ` set cats" by auto
  from Cons.prems entry have d: "distinct (map fst cats')"
    and i: "fst ` set (cats @ [(c, xs)]) \<inter> fst ` set cats' = {}"
    by auto
  show ?case
    using Cons.IH [OF Cons.prems(1) d i]
    by (simp add: entry extend_at_last [OF Cons.prems(1) fresh])
qed

lemma load_categories_fresh:
  assumes "month \<notin> fst ` set L" "distinct (map fst cats)"
  shows "load_categories L month cats = (if cats = [] then L else L @ [(month, cats)])"
proof (cases cats)
  case Nil
  then show ?thesis by simp
next
  case (Cons entry rest)
  obtain c xs where entry: "entry = (c, xs)" by (cases entry)
  from assms(2) Cons entry have d: "distinct (map fst rest)"
    and i: "fst ` set [(c, xs)] \<inter> fst ` set rest = {}"
    by auto
  show ?thesis
    using load_categories_last [OF assms(1) d i]
    by (simp add: Cons entry extend_at_fresh [OF assms(1)])
qed

lemma load_months_append:
  "distinct (map fst D) \<Longrightarrow> fst ` set L \<inter> fst ` set D = {} \<Longrightarrow>
   \<forall>entry \<in> set D. distinct (map fst (snd entry)) \<Longrightarrow>
   load_months L D = L @ filter has_categories D"
proof (induction D arbitrary: L)
  case Nil
  then show ?case by simp
next
  case (Cons entry D)
  obtain month cats where entry: "entry = (month, cats)" by (cases entry)
  from Cons.prems entry have fresh: "month \<notin> fst ` set L" and dc: "distinct (map fst cats)"
    by auto
  let ?L' = "load_categories L month cats"
  have L': "?L' = (if cats = [] then L else L @ [(month, cats)])"
    by (rule load_categories_fresh [OF fresh dc])
  from Cons.prems entry have d: "distinct (map fst D)"
    and a: "\<forall>entry \<in> set D. distinct (map fst (snd entry))"
    and m: "month \<notin> fst ` set D" and i0: "fst ` set L \<inter> fst ` set D = {}"
    by auto
  from m i0 have i: "fst ` set ?L' \<inter> fst ` set D = {}"
    unfolding L' by auto
  show ?case
    using Cons.IH [OF d i a]
    by (simp add: entry L' has_categories_def)
qed

lemma load_into_empty:
  assumes "wf_ledger L"
  shows "load_months [] L = filter has_categories L"
  using assms load_months_append [of L "[]"] by (simp add: wf_ledger_def)

lemma filter_all: "no_empty_month L \<Longrightarrow> filter has_categories L = L"
  by (simp add: no_empty_month_def list_all_iff)

text \<open>
  Claim C8, as amended. Saving a ledger, loading the file into an empty ledger and saving
  again gives the ledger without its months that have no category: loading creates a
  month only when it stores a category of it. So a ledger in which every month has at
  least one category comes back unchanged, in the same order, and both the ledger in
  memory and the file hold it. (\<open>wf_ledger\<close> says that dict keys are unique.)
\<close>

theorem persistence_round_trip:
  assumes "wf_ledger L"
  shows "expenses (save_load_save L f) = filter has_categories L
     \<and> data_file (save_load_save L f) = Content (filter has_categories L)
     \<and> (no_empty_month L \<longrightarrow>
          expenses (save_load_save L f) = L \<and> data_file (save_load_save L f) = Content L
          \<and> equivalent (expenses (save_load_save L f)) L)"
  using load_into_empty [OF assms] filter_all [of L]
  by (auto simp: save_load_save_def save_data_def new_tracker_def load_data_def equivalent_def)

theorem persistence_round_trip_witness:
  "wf_ledger ledger_feb \<and> no_empty_month ledger_feb
   \<and> expenses (save_load_save ledger_feb NoFile) = ledger_feb
   \<and> data_file (save_load_save ledger_feb NoFile) = Content ledger_feb"
proof -
  have w: "wf_ledger ledger_feb"
    by (simp add: wf_ledger_def ex_defs cat_defs)
  have n: "no_empty_month ledger_feb"
    by (simp add: no_empty_month_def has_categories_def ex_defs)
  from persistence_round_trip [OF w, of NoFile] n w filter_all [OF n] show ?thesis by simp
qed

text \<open>
  A ledger that is not empty, with one month that has no category, is not equivalent to
  what comes back: the month key is lost.
\<close>

theorem empty_month_is_lost:
  "ledger_empty_month \<noteq> [] \<and> wf_ledger ledger_empty_month
   \<and> expenses (save_load_save ledger_empty_month NoFile) = []
   \<and> \<not> equivalent (expenses (save_load_save ledger_empty_month NoFile)) ledger_empty_month"
proof -
  have e: "expenses (save_load_save ledger_empty_month NoFile) = []"
    by (simp add: save_load_save_def save_data_def new_tracker_def load_data_def
        ledger_empty_month_def)
  have "ledger_view [] key_2024_01 \<noteq> ledger_view ledger_empty_month key_2024_01"
    by (simp add: ledger_view_def ledger_empty_month_def)
  then have "\<not> equivalent [] ledger_empty_month"
    by (auto simp: equivalent_def)
  with e show ?thesis
    by (simp add: ledger_empty_month_def wf_ledger_def)
qed

section \<open>The ledger invariant\<close>

lemma set_dict_set: "set (dict_set d k v) \<subseteq> insert (k, v) (set d)"
  by (induction d) (auto split: if_splits)

lemma dict_get_member: "dict_get d k [] = [] \<or> (k, dict_get d k []) \<in> set d"
  by (auto simp: dict_get_def dest: map_of_SomeD split: option.splits)

lemma extend_at_inv:
  assumes "ledger_inv L" "list_all (record_ok m c) xs"
  shows "ledger_inv (extend_at L m c xs)"
proof -
  let ?cats = "dict_get L m []"
  let ?old = "dict_get ?cats c []"
  let ?cats' = "dict_set ?cats c (?old @ xs)"
  have A: "month_entry_ok (m, ?cats)"
    using dict_get_member [of L m] assms(1)
    by (auto simp: ledger_inv_def list_all_iff month_entry_ok_def)
  have B: "list_all (record_ok m c) ?old"
    using dict_get_member [of ?cats c] A
    by (auto simp: month_entry_ok_def cat_entry_ok_def list_all_iff)
  have C: "month_entry_ok (m, ?cats')"
    unfolding month_entry_ok_def list_all_iff
  proof
    fix entry
    assume "entry \<in> set (snd (m, ?cats'))"
    with set_dict_set [of ?cats c "?old @ xs"]
    have "entry = (c, ?old @ xs) \<or> entry \<in> set ?cats" by auto
    then show "cat_entry_ok (fst (m, ?cats')) entry"
      using A B assms(2) by (auto simp: month_entry_ok_def cat_entry_ok_def list_all_iff)
  qed
  have "list_all month_entry_ok (dict_set L m ?cats')"
    unfolding list_all_iff
  proof
    fix entry
    assume "entry \<in> set (dict_set L m ?cats')"
    with set_dict_set [of L m ?cats'] have "entry = (m, ?cats') \<or> entry \<in> set L" by auto
    then show "month_entry_ok entry"
      using C assms(1) by (auto simp: ledger_inv_def list_all_iff)
  qed
  then show ?thesis by (simp add: ledger_inv_def extend_at_def Let_def)
qed

lemma load_categories_inv:
  "ledger_inv L \<Longrightarrow> month_entry_ok (m, cats) \<Longrightarrow> ledger_inv (load_categories L m cats)"
proof (induction cats arbitrary: L)
  case Nil
  then show ?case by simp
next
  case (Cons entry cats)
  obtain c xs where entry: "entry = (c, xs)" by (cases entry)
  from Cons.prems(2) entry have x: "list_all (record_ok m c) xs" and r: "month_entry_ok (m, cats)"
    by (simp_all add: month_entry_ok_def cat_entry_ok_def)
  from Cons.IH [OF extend_at_inv [OF Cons.prems(1) x] r] show ?case
    by (simp add: entry)
qed

lemma load_months_inv:
  "ledger_inv L \<Longrightarrow> ledger_inv D \<Longrightarrow> ledger_inv (load_months L D)"
proof (induction D arbitrary: L)
  case Nil
  then show ?case by simp
next
  case (Cons entry D)
  obtain m cats where entry: "entry = (m, cats)" by (cases entry)
  from Cons.prems(2) entry have e: "month_entry_ok (m, cats)" and r: "ledger_inv D"
    by (simp_all add: ledger_inv_def)
  from Cons.IH [OF load_categories_inv [OF Cons.prems(1) e] r] show ?case
    by (simp add: entry)
qed

lemma load_data_inv: "tracker_inv st \<Longrightarrow> tracker_inv (load_data st)"
  by (cases "data_file st")
     (auto simp: tracker_inv_def load_data_def file_inv_def ledger_inv_def intro: load_months_inv [unfolded ledger_inv_def])

lemma save_data_inv: "tracker_inv st \<Longrightarrow> tracker_inv (save_data st)"
  by (simp add: tracker_inv_def save_data_def file_inv_def)

lemma new_tracker_inv: "file_inv f \<Longrightarrow> tracker_inv (new_tracker f)"
  unfolding new_tracker_def
  by (rule load_data_inv) (simp add: tracker_inv_def ledger_inv_def)

lemma add_expense_inv:
  assumes "tracker_inv st"
  shows "tracker_inv (fst (add_expense st date_str desc amt cat))"
proof (cases "strptime (normalize_year date_str)")
  case None
  with assms show ?thesis by (simp add: add_expense_def)
next
  case (Some ymd)
  obtain y m d where ymd: "ymd = (y, m, d)" by (cases ymd)
  let ?c = "case cat of None \<Rightarrow> categorize_description desc | Some c \<Rightarrow> c"
  let ?e = "\<lparr>date = normalize_year date_str, description = desc, amount = amt, category = ?c\<rparr>"
  have "record_ok (month_key_of y m) ?c ?e"
    using Some ymd by (simp add: record_ok_def)
  then have "ledger_inv (extend_at (expenses st) (month_key_of y m) ?c [?e])"
    using assms by (intro extend_at_inv) (simp_all add: tracker_inv_def)
  then show ?thesis
    using Some ymd by (simp add: add_expense_def Let_def tracker_inv_def save_data_def file_inv_def)
qed

lemma reachable_inv:
  assumes "reachable f0 st" "file_inv f0"
  shows "tracker_inv st"
  using assms
proof (induction rule: reachable.induct)
  case init
  then show ?case by (rule new_tracker_inv)
next
  case (add st date_str desc amt cat)
  then show ?case by (simp add: add_expense_inv)
next
  case (save st)
  then show ?case by (simp add: save_data_inv)
next
  case (load st)
  then show ?case by (simp add: load_data_inv)
qed

text \<open>
  Claim C9, as amended. \<open>add_expense\<close>, with any arguments, \<open>load_data\<close> and
  \<open>save_data\<close> preserve the invariant of the ledger together with that of the data
  file: \<open>load_data\<close> copies the records of the file under the keys of the file and
  checks nothing, so it keeps the invariant of the ledger when the content of the file
  has it. Hence the invariant holds in every state of a tracker started on a data file
  that is absent, unreadable, or whose content has the invariant, as every file written
  by \<open>save_data\<close> from such a state has.
\<close>

theorem ledger_invariant_reachable:
  "(file_inv f0 \<and> reachable f0 st \<longrightarrow> tracker_inv st)
   \<and> (tracker_inv st \<longrightarrow>
        tracker_inv (fst (add_expense st date_str desc amt cat))
        \<and> tracker_inv (load_data st)
        \<and> tracker_inv (save_data st))"
  using reachable_inv [of f0 st] add_expense_inv [of st date_str desc amt cat]
    load_data_inv [of st] save_data_inv [of st]
  by blast

lemma new_tracker_no_file: "new_tracker NoFile = \<lparr>expenses = [], data_file = NoFile\<rparr>"
  by (simp add: new_tracker_def load_data_def)

theorem ledger_invariant_reachable_witness:
  "file_inv NoFile
   \<and> reachable NoFile (fst (add_expense (new_tracker NoFile) date_B desc_B 5 None))
   \<and> expenses (fst (add_expense (new_tracker NoFile) date_B desc_B 5 None)) = ledger_B
   \<and> ledger_inv ledger_B"
proof -
  have f: "file_inv NoFile"
    by (simp add: file_inv_def)
  have r: "reachable NoFile (fst (add_expense (new_tracker NoFile) date_B desc_B 5 None))"
    by (intro reachable.add reachable.init)
  have e: "expenses (fst (add_expense (new_tracker NoFile) date_B desc_B 5 None)) = ledger_B"
    by (simp add: new_tracker_no_file add_line_B)
  from ledger_invariant_reachable [of NoFile "fst (add_expense (new_tracker NoFile) date_B desc_B 5 None)"]
    f r
  have "tracker_inv (fst (add_expense (new_tracker NoFile) date_B desc_B 5 None))"
    by blast
  then have "ledger_inv ledger_B"
    by (simp add: tracker_inv_def e)
  with f r e show ?thesis by simp
qed

text \<open>
  A tracker started on a data file that holds a record of February, labelled transport,
  under the month key of January and the category dining: the state after the constructor
  does not have the invariant.
\<close>

theorem misfiled_record_loaded:
  "reachable misfiled (new_tracker misfiled)
   \<and> \<not> ledger_inv (expenses (new_tracker misfiled))"
proof -
  have "expenses (new_tracker misfiled) =
      [(key_2024_01,
        [(cat_food,
          [\<lparr>date = date_feb, description = desc_B, amount = 5, category = cat_transport\<rparr>])])]"
    by (simp add: new_tracker_def load_data_def misfiled_def extend_at_def dict_get_def)
  moreover have "key_2024_02 \<noteq> key_2024_01"
    by (simp add: ex_defs)
  ultimately have "\<not> ledger_inv (expenses (new_tracker misfiled))"
    by (simp add: ledger_inv_def month_entry_ok_def cat_entry_ok_def record_ok_def
        strptime_date_feb keys_2024)
  then show ?thesis by (simp add: reachable.init)
qed

section \<open>Ledgers that the operations build\<close>

text \<open>
  In every state of a tracker, whatever data file it was started on, the ledger has its
  keys once and no month without a category: months come into being only together with a
  category. So every such ledger comes back unchanged from saving, loading and saving.
\<close>

lemma dict_set_nonempty: "dict_set d k v \<noteq> []"
  by (cases d) (auto split: if_splits)

lemma distinct_dict_set: "distinct (map fst d) \<Longrightarrow> distinct (map fst (dict_set d k v))"
proof (induction d)
  case Nil
  then show ?case by simp
next
  case (Cons e d)
  have "fst ` set (dict_set d k v) \<subseteq> insert k (fst ` set d)"
    using set_dict_set [of d k v] by force
  with Cons show ?case by (cases e) auto
qed

lemma no_empty_dict_set:
  "no_empty_month L \<Longrightarrow> v \<noteq> [] \<Longrightarrow> no_empty_month (dict_set L k v)"
  by (induction L) (auto simp: no_empty_month_def has_categories_def)

lemma built_extend_at:
  assumes "wf_ledger L" "no_empty_month L"
  shows "wf_ledger (extend_at L month cat xs) \<and> no_empty_month (extend_at L month cat xs)"
proof -
  let ?cats = "dict_get L month []"
  let ?new = "dict_set ?cats cat (dict_get ?cats cat [] @ xs)"
  have e: "extend_at L month cat xs = dict_set L month ?new"
    by (simp add: extend_at_def Let_def)
  from dict_get_member [of L month] assms(1) have "distinct (map fst ?cats)"
    by (auto simp: wf_ledger_def)
  then have d: "distinct (map fst ?new)"
    by (rule distinct_dict_set)
  have "distinct (map fst (snd entry))" if "entry \<in> set (dict_set L month ?new)" for entry
    using that set_dict_set [of L month ?new] assms(1) d by (auto simp: wf_ledger_def)
  with assms(1) have "wf_ledger (dict_set L month ?new)"
    by (simp add: wf_ledger_def distinct_dict_set)
  moreover have "no_empty_month (dict_set L month ?new)"
    using assms(2) dict_set_nonempty by (rule no_empty_dict_set)
  ultimately show ?thesis unfolding e by simp
qed

lemma built_load_categories:
  "wf_ledger L \<Longrightarrow> no_empty_month L \<Longrightarrow>
   wf_ledger (load_categories L month cats) \<and> no_empty_month (load_categories L month cats)"
proof (induction cats arbitrary: L)
  case Nil
  then show ?case by simp
next
  case (Cons entry cats)
  obtain cat xs where entry: "entry = (cat, xs)" by (cases entry)
  from built_extend_at [OF Cons.prems, of month cat xs] Cons.IH show ?case
    by (simp add: entry)
qed

lemma built_load_months:
  "wf_ledger L \<Longrightarrow> no_empty_month L \<Longrightarrow>
   wf_ledger (load_months L loaded) \<and> no_empty_month (load_months L loaded)"
proof (induction loaded arbitrary: L)
  case Nil
  then show ?case by simp
next
  case (Cons entry loaded)
  obtain month cats where entry: "entry = (month, cats)" by (cases entry)
  from built_load_categories [OF Cons.prems, of month cats] Cons.IH show ?case
    by (simp add: entry)
qed

lemma built_empty: "wf_ledger [] \<and> no_empty_month []"
  by (simp add: wf_ledger_def no_empty_month_def)

lemma built_load_data:
  assumes "wf_ledger (expenses st) \<and> no_empty_month (expenses st)"
  shows "wf_ledger (expenses (load_data st)) \<and> no_empty_month (expenses (load_data st))"
  using assms built_load_months [of "expenses st"] built_empty
  by (cases "data_file st") (simp_all add: load_data_def)

lemma built_add_expense:
  assumes "wf_ledger (expenses st) \<and> no_empty_month (expenses st)"
  shows "wf_ledger (expenses (fst (add_expense st date_str desc amt cat)))
     \<and> no_empty_month (expenses (fst (add_expense st date_str desc amt cat)))"
  using assms built_extend_at [of "expenses st"]
  by (auto simp: add_expense_def save_data_def Let_def split: option.splits)

lemma reachable_built:
  assumes "reachable f0 st"
  shows "wf_ledger (expenses st) \<and> no_empty_month (expenses st)"
  using assms
proof (induction rule: reachable.induct)
  case init
  show ?case
    unfolding new_tracker_def by (rule built_load_data) (simp add: built_empty)
next
  case (add st date_str desc amt cat)
  from add.IH show ?case by (rule built_add_expense)
next
  case (save st)
  then show ?case by (simp add: save_data_def)
next
  case (load st)
  from load.IH show ?case by (rule built_load_data)
qed

lemma reachable_round_trip:
  assumes "reachable f0 st"
  shows "expenses (save_load_save (expenses st) f) = expenses st
     \<and> data_file (save_load_save (expenses st) f) = Content (expenses st)"
proof -
  from reachable_built [OF assms] have w: "wf_ledger (expenses st)"
    and n: "no_empty_month (expenses st)"
    by simp_all
  from load_into_empty [OF w] filter_all [OF n] show ?thesis
    by (simp add: save_load_save_def save_data_def new_tracker_def load_data_def)
qed

section \<open>Entry lines\<close>

lemma all_decimals_takeWhile: "all_decimals (takeWhile is_decimal s)"
  by (auto simp: all_decimals_def list_all_iff dest: set_takeWhileD)

lemma digit_run_Some:
  assumes "digit_run lo hi stop s = Some (ds, rest)"
  shows "s = ds @ stop # rest \<and> all_decimals ds \<and> lo \<le> length ds \<and> length ds \<le> hi"
proof -
  from assms have ds: "ds = takeWhile is_decimal s" and r: "dropWhile is_decimal s = stop # rest"
    and l: "lo \<le> length ds" "length ds \<le> hi"
    by (auto simp: digit_run_def Let_def split: if_splits list.splits)
  have "s = takeWhile is_decimal s @ dropWhile is_decimal s" by simp
  then have e: "s = ds @ stop # rest" unfolding ds r .
  have a: "all_decimals ds" unfolding ds by (rule all_decimals_takeWhile)
  from e a l show ?thesis by blast
qed

lemma digit_run_complete:
  assumes "all_decimals ds" "lo \<le> length ds" "length ds \<le> hi" "\<not> is_decimal stop"
  shows "digit_run lo hi stop (ds @ stop # rest) = Some (ds, rest)"
proof -
  from assms(1) have a: "\<And>x. x \<in> set ds \<Longrightarrow> is_decimal x"
    by (simp add: all_decimals_def list_all_iff)
  have t: "takeWhile is_decimal (ds @ stop # rest) = ds"
    using a assms(4) by (simp add: takeWhile_append2)
  have d: "dropWhile is_decimal (ds @ stop # rest) = stop # rest"
    using a assms(4) by (simp add: dropWhile_append2)
  show ?thesis by (simp add: digit_run_def t d assms(2,3))
qed

lemma match_date_Some:
  assumes "match_date s = Some (d, r)"
  shows "s = d @ 0xff0c # r \<and> date_form d"
proof -
  from assms obtain y r1 m r2 dd where
    y: "digit_run 2 4 0x2f s = Some (y, r1)" and m: "digit_run 1 2 0x2f r1 = Some (m, r2)"
    and dd: "digit_run 1 2 0xff0c r2 = Some (dd, r)" and d: "d = y @ [0x2f] @ m @ [0x2f] @ dd"
    by (auto simp: match_date_def split: option.splits prod.splits)
  from digit_run_Some [OF y] digit_run_Some [OF m] digit_run_Some [OF dd] d
  show ?thesis unfolding date_form_def by auto
qed

lemma not_digit_stops: "\<not> is_decimal 0x2f" "\<not> is_decimal 0xff0c"
  by (rule marks_not_decimal)+

lemma match_date_complete:
  assumes "date_form d"
  shows "match_date (d @ 0xff0c # r) = Some (d, r)"
proof -
  from assms obtain y m dd where d: "d = y @ [0x2f] @ m @ [0x2f] @ dd"
    and y: "all_decimals y" "2 \<le> length y" "length y \<le> 4"
    and m: "all_decimals m" "1 \<le> length m" "length m \<le> 2"
    and dd: "all_decimals dd" "1 \<le> length dd" "length dd \<le> 2"
    unfolding date_form_def by blast
  have 1: "digit_run 2 4 0x2f (y @ 0x2f # (m @ 0x2f # (dd @ 0xff0c # r))) =
      Some (y, m @ 0x2f # (dd @ 0xff0c # r))"
    by (rule digit_run_complete [OF y not_digit_stops(1)])
  have 2: "digit_run 1 2 0x2f (m @ 0x2f # (dd @ 0xff0c # r)) = Some (m, dd @ 0xff0c # r)"
    by (rule digit_run_complete [OF m not_digit_stops(1)])
  have 3: "digit_run 1 2 0xff0c (dd @ 0xff0c # r) = Some (dd, r)"
    by (rule digit_run_complete [OF dd not_digit_stops(2)])
  have e: "d @ 0xff0c # r = y @ 0x2f # (m @ 0x2f # (dd @ 0xff0c # r))"
    by (simp add: d)
  show ?thesis
    unfolding e match_date_def 1 by (simp only: option.case prod.case 2 3 d)
qed

lemma split_amount_Some:
  "split_amount pre r = Some (desc, cs) \<Longrightarrow>
   \<exists>mid dg tail. desc = pre @ mid \<and> r = mid @ 0x2d # cs \<and> desc \<noteq> [] \<and> 0x0a \<notin> set mid
      \<and> cs = dg # tail \<and> is_decimal dg"
proof (induction r arbitrary: pre)
  case Nil
  then show ?case by simp
next
  case (Cons c r)
  from Cons.prems have nl: "c \<noteq> 0x0a" by (auto split: if_splits)
  show ?case
  proof (cases "split_amount (pre @ [c]) r")
    case (Some res)
    with Cons.prems nl have "split_amount (pre @ [c]) r = Some (desc, cs)" by simp
    from Cons.IH [OF this] obtain mid dg tail where
      "desc = (pre @ [c]) @ mid" "r = mid @ 0x2d # cs" "desc \<noteq> []" "0x0a \<notin> set mid"
      "cs = dg # tail" "is_decimal dg"
      by blast
    with nl have "desc = pre @ (c # mid) \<and> c # r = (c # mid) @ 0x2d # cs \<and> desc \<noteq> []
        \<and> 0x0a \<notin> set (c # mid) \<and> cs = dg # tail \<and> is_decimal dg"
      by simp
    then show ?thesis by blast
  next
    case None
    with Cons.prems nl have "c = 0x2d" "pre \<noteq> []" "desc = pre" "cs = r"
      and "case r of d # _ \<Rightarrow> is_decimal d | [] \<Rightarrow> False"
      by (auto split: if_splits)
    then obtain dg tail where "cs = dg # tail" "is_decimal dg"
      by (cases r) auto
    with \<open>c = 0x2d\<close> \<open>pre \<noteq> []\<close> \<open>desc = pre\<close> \<open>cs = r\<close>
    have "desc = pre @ [] \<and> c # r = [] @ 0x2d # cs \<and> desc \<noteq> [] \<and> 0x0a \<notin> set []
        \<and> cs = dg # tail \<and> is_decimal dg"
      by simp
    then show ?thesis by blast
  qed
qed

lemma split_amount_complete:
  "0x0a \<notin> set mid \<Longrightarrow> pre @ mid \<noteq> [] \<Longrightarrow> is_decimal dg \<Longrightarrow>
   split_amount pre (mid @ 0x2d # dg # tail) \<noteq> None"
proof (induction mid arbitrary: pre)
  case Nil
  then show ?case by (auto split: option.splits)
next
  case (Cons c mid)
  from Cons.prems have "0x0a \<notin> set mid" "(pre @ [c]) @ mid \<noteq> []" "c \<noteq> 0x0a"
    by auto
  from Cons.IH [OF this(1,2) Cons.prems(3)] this(3) show ?case
    by (auto split: option.splits)
qed

lemma take_amount_form_gen:
  assumes "takeWhile is_decimal cs \<noteq> []"
  shows "amount_form (take_amount cs) \<and> (\<exists>rest. cs = take_amount cs @ rest)"
proof -
  let ?d1 = "takeWhile is_decimal cs"
  have d1: "all_decimals ?d1" by (rule all_decimals_takeWhile)
  have id: "cs = ?d1 @ dropWhile is_decimal cs" by simp
  have plain: "amount_form ?d1"
    unfolding amount_form_def using assms d1
    by (intro exI [of _ ?d1] exI [of _ "[]"]) (simp add: all_decimals_def)
  show ?thesis
  proof (cases "dropWhile is_decimal cs")
    case Nil
    have t: "take_amount cs = ?d1"
      unfolding take_amount_def Let_def Nil by simp
    from id have "cs = ?d1 @ []" unfolding Nil .
    with plain show ?thesis unfolding t by blast
  next
    case (Cons c rest)
    show ?thesis
    proof (cases "c = 0x2e")
      case True
      let ?d2 = "takeWhile is_decimal rest"
      have t: "take_amount cs = ?d1 @ [0x2e] @ ?d2"
        unfolding take_amount_def Let_def Cons using True by simp
      have "amount_form (?d1 @ [0x2e] @ ?d2)"
        unfolding amount_form_def using assms d1
        by (intro exI [of _ ?d1] exI [of _ ?d2]) (simp add: all_decimals_takeWhile)
      moreover have "rest = ?d2 @ dropWhile is_decimal rest" by simp
      with id have "cs = (?d1 @ [0x2e] @ ?d2) @ dropWhile is_decimal rest"
        unfolding Cons True by simp
      ultimately show ?thesis unfolding t by blast
    next
      case False
      have t: "take_amount cs = ?d1"
        unfolding take_amount_def Let_def Cons using False by simp
      from id have "cs = ?d1 @ (c # rest)" unfolding Cons .
      with plain show ?thesis unfolding t by blast
    qed
  qed
qed

lemma take_amount_form:
  assumes "is_decimal dg"
  shows "amount_form (take_amount (dg # tail))
     \<and> (\<exists>rest. dg # tail = take_amount (dg # tail) @ rest)"
  by (rule take_amount_form_gen) (simp add: assms)

lemma amount_form_head: "amount_form a \<Longrightarrow> \<exists>dg tail. a = dg # tail \<and> is_decimal dg"
  by (cases a) (auto simp: amount_form_def all_decimals_def neq_Nil_conv)

lemma parse_input_Some:
  assumes "parse_input s = Some (d, desc, v, c)"
  shows "date_form d \<and> desc \<noteq> [] \<and> 0x0a \<notin> set desc \<and> c = None
     \<and> (\<exists>a rest. amount_form a \<and> v = float_of a \<and> s = d @ [0xff0c] @ desc @ [0x2d] @ a @ rest)"
proof -
  from assms obtain r cs where md: "match_date s = Some (d, r)"
    and sa: "split_amount [] r = Some (desc, cs)"
    and v: "v = float_of (take_amount cs)" and c: "c = None"
    by (auto simp: parse_input_def split: option.splits prod.splits)
  from match_date_Some [OF md] have s: "s = d @ 0xff0c # r" and df: "date_form d"
    by simp_all
  from split_amount_Some [OF sa] obtain dg tail where r: "r = desc @ 0x2d # cs"
    and ne: "desc \<noteq> []" and nl: "0x0a \<notin> set desc" and cs: "cs = dg # tail" and dg: "is_decimal dg"
    by auto
  from take_amount_form [OF dg, of tail] cs obtain rest where af: "amount_form (take_amount cs)"
    and rest: "cs = take_amount cs @ rest"
    by auto
  have "s = d @ [0xff0c] @ desc @ [0x2d] @ take_amount cs @ rest"
    using s r rest by simp
  with af v df ne nl c show ?thesis by blast
qed

lemma parse_input_complete:
  assumes "entry_prefix s"
  shows "parse_input s \<noteq> None"
proof -
  from assms obtain d desc a rest where s: "s = d @ [0xff0c] @ desc @ [0x2d] @ a @ rest"
    and df: "date_form d" and ne: "desc \<noteq> []" and nl: "0x0a \<notin> set desc" and af: "amount_form a"
    unfolding entry_prefix_def by blast
  from amount_form_head [OF af] obtain dg tail where a: "a = dg # tail" and dg: "is_decimal dg"
    by blast
  have md: "match_date s = Some (d, desc @ 0x2d # dg # (tail @ rest))"
    using match_date_complete [OF df, of "desc @ 0x2d # dg # (tail @ rest)"] by (simp add: s a)
  from ne have "[] @ desc \<noteq> []" by simp
  from split_amount_complete [OF nl this dg, of "tail @ rest"]
  obtain res where "split_amount [] (desc @ 0x2d # dg # (tail @ rest)) = Some res"
    by auto
  with md show ?thesis
    by (simp add: parse_input_def split: prod.splits)
qed

lemma entry_line_prefix:
  assumes "entry_line s" "0x0a \<notin> set s"
  shows "entry_prefix s"
proof -
  from assms(1) obtain d desc a where s: "s = d @ [0xff0c] @ desc @ [0x2d] @ a"
    and *: "date_form d" "desc \<noteq> []" "amount_form a"
    unfolding entry_line_def by blast
  from s assms(2) have "0x0a \<notin> set desc" by auto
  with s * have "s = d @ [0xff0c] @ desc @ [0x2d] @ a @ [] \<and> date_form d \<and> desc \<noteq> []
      \<and> 0x0a \<notin> set desc \<and> amount_form a"
    by simp
  then show ?thesis unfolding entry_prefix_def by blast
qed

lemma split_amount_longest:
  "split_amount pre r = Some (desc, cs) \<Longrightarrow> r = mid @ 0x2d # dg # tail \<Longrightarrow> is_decimal dg \<Longrightarrow>
   0x0a \<notin> set mid \<Longrightarrow> pre @ mid \<noteq> [] \<Longrightarrow> length (pre @ mid) \<le> length desc"
proof (induction r arbitrary: pre mid)
  case Nil
  then show ?case by simp
next
  case (Cons c r)
  show ?case
  proof (cases mid)
    case Nil
    with Cons.prems(2) have c: "c = 0x2d" and r: "r = dg # tail" by simp_all
    from split_amount_Some [OF Cons.prems(1)] obtain m where "desc = pre @ m" by blast
    with Nil show ?thesis by simp
  next
    case (Cons c' mid')
    with Cons.prems(2) have c: "c' = c" and r: "r = mid' @ 0x2d # dg # tail" by simp_all
    from Cons.prems(4) Cons c have nl: "c \<noteq> 0x0a" "0x0a \<notin> set mid'" by auto
    have ne: "(pre @ [c]) @ mid' \<noteq> []" by simp
    from split_amount_complete [OF nl(2) ne Cons.prems(3), of tail]
    obtain res where res: "split_amount (pre @ [c]) r = Some res"
      unfolding r by auto
    with Cons.prems(1) nl(1) have "split_amount (pre @ [c]) r = Some (desc, cs)"
      by simp
    from Cons.IH [OF this r Cons.prems(3) nl(2) ne] show ?thesis
      using Cons c by simp
  qed
qed

lemma parse_input_longest:
  assumes "parse_input s = Some (d, desc, v, c)"
    and "s = d @ [0xff0c] @ desc' @ [0x2d] @ dg # tail" "is_decimal dg" "desc' \<noteq> []"
    "0x0a \<notin> set desc'"
  shows "length desc' \<le> length desc"
proof -
  from assms(1) obtain r cs where md: "match_date s = Some (d, r)"
    and sa: "split_amount [] r = Some (desc, cs)"
    by (auto simp: parse_input_def split: option.splits prod.splits)
  from match_date_Some [OF md] have "s = d @ 0xff0c # r" by simp
  with assms(2) have r: "r = desc' @ 0x2d # dg # tail" by simp
  from split_amount_longest [OF sa r assms(3,5)] assms(4) show ?thesis by simp
qed

text \<open>
  Claim C6, as amended. \<open>parse_input\<close> succeeds exactly on the texts that begin with a
  date of 2 to 4, 1 to 2 and 1 to 2 digits separated by slashes, the full-width comma, a
  non-empty description free of line feeds, a hyphen and an amount (digits, optionally a
  dot and further digits), where a digit is a decimal digit of any script; whatever
  follows the amount is ignored, since the pattern is matched at the start of the text
  only. In particular it succeeds on every line of the form of the specification. On
  success the date, the description and the number read from an amount are returned,
  with no category, and the description is the longest one possible: it ends at the last
  hyphen of its line that has a digit behind it. Otherwise nothing is returned. The
  function reads and changes no state.
\<close>

theorem parse_input_accepts_prefix:
  "(parse_input s \<noteq> None \<longleftrightarrow> entry_prefix s)
   \<and> (entry_line s \<and> 0x0a \<notin> set s \<longrightarrow> parse_input s \<noteq> None)
   \<and> (parse_input s = Some (d, desc, v, c) \<longrightarrow>
        date_form d \<and> desc \<noteq> [] \<and> 0x0a \<notin> set desc \<and> c = None
        \<and> (\<exists>a rest. amount_form a \<and> s = d @ [0xff0c] @ desc @ [0x2d] @ a @ rest)
        \<and> (\<forall>desc' dg tail.
              s = d @ [0xff0c] @ desc' @ [0x2d] @ dg # tail \<and> is_decimal dg
              \<and> desc' \<noteq> [] \<and> 0x0a \<notin> set desc' \<longrightarrow> length desc' \<le> length desc))"
proof -
  have "entry_prefix s" if "parse_input s \<noteq> None"
  proof -
    from that obtain d' desc' v' c' where "parse_input s = Some (d', desc', v', c')"
      by (cases "parse_input s") auto
    from parse_input_Some [OF this] show ?thesis
      unfolding entry_prefix_def by blast
  qed
  moreover have "length desc' \<le> length desc"
    if "parse_input s = Some (d, desc, v, c)"
      and "s = d @ [0xff0c] @ desc' @ [0x2d] @ dg # tail \<and> is_decimal dg
        \<and> desc' \<noteq> [] \<and> 0x0a \<notin> set desc'"
    for desc' dg tail
    using parse_input_longest [OF that(1), of desc' dg tail] that(2) by blast
  ultimately show ?thesis
    using parse_input_complete [of s] entry_line_prefix [of s]
      parse_input_Some [of s d desc v c]
    by blast
qed

lemma date_form_B: "date_form date_B"
  unfolding date_form_def
  by (intro exI [of _ "[0x32, 0x34]"] exI [of _ "[0x30, 0x32]"] exI [of _ "[0x31, 0x34]"])
     (simp add: date_B_def all_decimals_def decimal_eval)

lemma date_form_feb: "date_form date_feb"
  unfolding date_form_def
  by (intro exI [of _ "[0x32, 0x30, 0x32, 0x34]"] exI [of _ "[0x30, 0x32]"] exI [of _ "[0x31, 0x34]"])
     (simp add: date_feb_def all_decimals_def decimal_eval)

lemma entry_line_B: "entry_line line_B"
proof -
  have a: "amount_form [0x35]"
    unfolding amount_form_def
    by (intro exI [of _ "[0x35]"] exI [of _ "[]"]) (simp add: all_decimals_def decimal_eval)
  have e: "line_B = date_B @ [0xff0c] @ desc_B @ [0x2d] @ [0x35]"
    by (simp add: line_B_def date_B_def desc_B_def)
  have n: "desc_B \<noteq> []"
    by (simp add: desc_B_def)
  from e date_form_B n a show ?thesis
    unfolding entry_line_def by blast
qed

lemma entry_line_wide: "entry_line line_wide"
proof -
  have a: "amount_form [0xff15]"
    unfolding amount_form_def
    by (intro exI [of _ "[0xff15]"] exI [of _ "[]"]) (simp add: all_decimals_def decimal_eval)
  have e: "line_wide = date_B @ [0xff0c] @ desc_B @ [0x2d] @ [0xff15]"
    by (simp add: line_wide_def date_B_def desc_B_def)
  have n: "desc_B \<noteq> []"
    by (simp add: desc_B_def)
  from e date_form_B n a show ?thesis
    unfolding entry_line_def by blast
qed

lemma parse_line_wide: "parse_input line_wide = Some (date_B, desc_B, 5, None)"
proof -
  have md: "match_date line_wide = Some (date_B, [0x5730, 0x94c1, 0x2d, 0xff15])"
    by (simp add: match_date_def digit_run_def decimal_eval line_wide_def date_B_def)
  have sa: "split_amount [] [0x5730, 0x94c1, 0x2d, 0xff15] = Some (desc_B, [0xff15])"
    by (simp add: decimal_eval desc_B_def)
  have ta: "take_amount [0xff15] = [0xff15]"
    by (simp add: take_amount_def decimal_eval)
  have fo: "float_of [0xff15] = 5"
    by (simp add: float_of_def decimal_eval nat_of_decimals_def)
  show ?thesis
    unfolding parse_input_def md by (simp only: option.case prod.case sa ta fo)
qed

lemma parse_line_metro: "parse_input line_metro = Some (date_B, desc_metro, 5, None)"
proof -
  have md: "match_date line_metro =
      Some (date_B, [0x5730, 0x94c1, 0x2d, 0x32, 0x53f7, 0x7ebf, 0x2d, 0x35])"
    by (simp add: match_date_def digit_run_def decimal_eval line_metro_def date_B_def)
  have sa: "split_amount [] [0x5730, 0x94c1, 0x2d, 0x32, 0x53f7, 0x7ebf, 0x2d, 0x35] =
      Some (desc_metro, [0x35])"
    by (simp add: decimal_eval desc_metro_def)
  have ta: "take_amount [0x35] = [0x35]"
    by (simp add: take_amount_def decimal_eval)
  have fo: "float_of [0x35] = 5"
    by (simp add: float_of_def decimal_eval nat_of_decimals_def)
  show ?thesis
    unfolding parse_input_def md by (simp only: option.case prod.case sa ta fo)
qed

theorem parse_input_accepts_prefix_witness:
  "entry_line line_B \<and> 0x0a \<notin> set line_B \<and> parse_input line_B \<noteq> None \<and> entry_prefix line_B
   \<and> entry_line line_wide \<and> 0x0a \<notin> set line_wide \<and> parse_input line_wide \<noteq> None
   \<and> parse_input line_metro = Some (date_B, desc_metro, 5, None)
   \<and> line_metro = date_B @ [0xff0c] @ desc_B @ [0x2d] @ 0x32 # [0x53f7, 0x7ebf, 0x2d, 0x35]
   \<and> length desc_B \<le> length desc_metro"
proof -
  have n: "0x0a \<notin> set line_B" "0x0a \<notin> set line_wide"
    by (simp_all add: line_B_def line_wide_def)
  have first: "entry_line line_B \<and> 0x0a \<notin> set line_B \<and> parse_input line_B \<noteq> None
      \<and> entry_prefix line_B
      \<and> entry_line line_wide \<and> 0x0a \<notin> set line_wide \<and> parse_input line_wide \<noteq> None"
    using parse_input_accepts_prefix [of line_B] parse_input_accepts_prefix [of line_wide]
      entry_line_B entry_line_wide n
    by blast
  have e: "line_metro = date_B @ [0xff0c] @ desc_B @ [0x2d] @ 0x32 # [0x53f7, 0x7ebf, 0x2d, 0x35]"
    by (simp add: line_metro_def date_B_def desc_B_def)
  have d: "is_decimal 0x32" "desc_B \<noteq> []" "0x0a \<notin> set desc_B"
    by (simp_all add: decimal_eval desc_B_def)
  from parse_input_accepts_prefix [of line_metro date_B desc_metro 5 None] parse_line_metro
  have "\<forall>desc' dg tail.
      line_metro = date_B @ [0xff0c] @ desc' @ [0x2d] @ dg # tail \<and> is_decimal dg
      \<and> desc' \<noteq> [] \<and> 0x0a \<notin> set desc' \<longrightarrow> length desc' \<le> length desc_metro"
    by blast
  with e d have "length desc_B \<le> length desc_metro"
    by blast
  with first parse_line_metro e show ?thesis by blast
qed

lemma entry_line_last:
  assumes "entry_line s"
  shows "s \<noteq> [] \<and> (is_decimal (last s) \<or> last s = 0x2e)"
proof -
  from assms obtain d desc a where s: "s = d @ [0xff0c] @ desc @ [0x2d] @ a" and af: "amount_form a"
    unfolding entry_line_def by blast
  from af obtain d1 d2 where d1: "d1 \<noteq> []" "all_decimals d1" and d2: "all_decimals d2"
    and a: "a = d1 \<or> a = d1 @ [0x2e] @ d2"
    unfolding amount_form_def by blast
  from d1 have l1: "is_decimal (last d1)"
    by (simp add: all_decimals_def list_all_iff)
  have "a \<noteq> [] \<and> (is_decimal (last a) \<or> last a = 0x2e)"
  proof (cases "a = d1")
    case True
    with d1 l1 show ?thesis by simp
  next
    case False
    with a have a': "a = d1 @ [0x2e] @ d2" by simp
    show ?thesis
    proof (cases "d2 = []")
      case True
      with a' show ?thesis by simp
    next
      case False
      with d2 have "is_decimal (last d2)" by (simp add: all_decimals_def list_all_iff)
      with a' False show ?thesis by simp
    qed
  qed
  with s show ?thesis by simp
qed

lemma parse_line_yuan: "parse_input line_yuan = Some (date_feb, [0x5348, 0x9910], 25, None)"
proof -
  have md: "match_date line_yuan = Some (date_feb, [0x5348, 0x9910, 0x2d, 0x32, 0x35, 0x5143])"
    by (simp add: match_date_def digit_run_def decimal_eval line_yuan_def date_feb_def)
  have sa: "split_amount [] [0x5348, 0x9910, 0x2d, 0x32, 0x35, 0x5143] = Some ([0x5348, 0x9910], [0x32, 0x35, 0x5143])"
    by (simp add: decimal_eval)
  have ta: "take_amount [0x32, 0x35, 0x5143] = [0x32, 0x35]"
    by (simp add: take_amount_def decimal_eval)
  have fo: "float_of [0x32, 0x35] = 25"
    by (simp add: float_of_def decimal_eval nat_of_decimals_def)
  show ?thesis
    unfolding parse_input_def md by (simp only: option.case prod.case sa ta fo)
qed

text \<open>
  A line with a unit after the amount is parsed, with the amount 25, though it is not of
  the form of the specification: its amount does not end the line.
\<close>

theorem trailing_text_accepted:
  "parse_input line_yuan = Some (date_feb, [0x5348, 0x9910], 25, None)
   \<and> \<not> entry_line line_yuan"
proof -
  have p: "parse_input line_yuan = Some (date_feb, [0x5348, 0x9910], 25, None)"
    by (rule parse_line_yuan)
  have "last line_yuan = 0x5143" "line_yuan \<noteq> []"
    by (simp_all add: line_yuan_def)
  then have "\<not> (is_decimal (last line_yuan) \<or> last line_yuan = 0x2e)"
    by (simp add: decimal_eval)
  with entry_line_last [of line_yuan] have "\<not> entry_line line_yuan" by blast
  with p show ?thesis by simp
qed

end
